theory Spec2Isabelle
  imports Main
begin

section \<open>Exceptions\<close>

text \<open>
  The scripts talk to two stores through their Python drivers: \<^verbatim>\<open>sqlite3\<close> for the
  local database and \<^verbatim>\<open>psycopg2\<close> for the PostgreSQL destination. Every exception a
  driver call can raise is a value; a call returns \<open>Inl e\<close> where Python raises \<open>e\<close>.
\<close>

datatype sqlite3_error =
    ProgrammingError            \<comment> \<open>operation on a closed database\<close>
  | OperationalError string     \<comment> \<open>no such table, or a statement that does not parse\<close>

datatype psycopg2_error =
    InterfaceError              \<comment> \<open>connection already closed\<close>
  | InsufficientPrivilege
  | DuplicateTable string       \<comment> \<open>relation already exists (tables and indexes share names)\<close>
  | UndefinedTable string
  | UndefinedColumn string
  | WrongObjectType string      \<comment> \<open>DROP TABLE on a name that an index holds\<close>
  | RowRejected                 \<comment> \<open>a row violates a constraint or a column type\<close>
  | BadCopyFileFormat           \<comment> \<open>a line of COPY data that does not parse\<close>
  | InFailedSqlTransaction      \<comment> \<open>a statement in a transaction that has failed\<close>
  | EmptyQuery                  \<comment> \<open>\<^verbatim>\<open>execute\<close> of a text that holds no statement\<close>

datatype error =
    Sqlite3 sqlite3_error
  | Psycopg2 psycopg2_error
  | FileNotFoundError string
  | StopIteration

section \<open>The source store (sqlite3)\<close>

text \<open>
  The local database is read only, but nothing stops another process from writing to
  it while a script runs, and the scripts read outside any transaction. The connection
  therefore sees a sequence of snapshots: \<open>snapshots c n\<close> is the content of the
  database when the \<open>n\<close>-th statement of the connection runs, and \<open>tick c\<close> counts
  the statements run so far. A table is the list of its rows in scan order; rows are
  opaque (\<open>'r\<close>).
\<close>

record 'r sqlite_conn =
  snapshots :: "nat \<Rightarrow> (string \<rightharpoonup> 'r list)"
  tick :: nat
  sqlite_closed :: bool

definition sqlite_cursor :: "'r sqlite_conn \<Rightarrow> error + unit" where
  "sqlite_cursor c = (if sqlite_closed c then Inl (Sqlite3 ProgrammingError) else Inr ())"

text \<open>\<^verbatim>\<open>SELECT COUNT(*) FROM {table_name}\<close> followed by \<^verbatim>\<open>fetchone()[0]\<close>.\<close>

definition sqlite_count :: "'r sqlite_conn \<Rightarrow> string \<Rightarrow> (error + int) \<times> 'r sqlite_conn" where
  "sqlite_count c t =
     (case snapshots c (tick c) t of
        None \<Rightarrow> (Inl (Sqlite3 (OperationalError t)), c\<lparr>tick := Suc (tick c)\<rparr>)
      | Some rs \<Rightarrow> (Inr (int (length rs)), c\<lparr>tick := Suc (tick c)\<rparr>))"

text \<open>
  \<^verbatim>\<open>PRAGMA table_info({table_name})\<close> never raises: for a table that does not exist it
  returns no column. The rows being opaque, the model keeps of the column list whether
  it is non-empty.
\<close>

definition sqlite_table_info :: "'r sqlite_conn \<Rightarrow> string \<Rightarrow> bool \<times> 'r sqlite_conn" where
  "sqlite_table_info c t = (snapshots c (tick c) t \<noteq> None, c\<lparr>tick := Suc (tick c)\<rparr>)"

text \<open>
  \<^verbatim>\<open>LIMIT l OFFSET o\<close> in SQLite: a negative limit is no limit, a negative offset is
  no offset.
\<close>

definition sqlite_limit_offset :: "'r list \<Rightarrow> int \<Rightarrow> int \<Rightarrow> 'r list" where
  "sqlite_limit_offset rs l off =
     (if l < 0 then drop (nat off) rs else take (nat l) (drop (nat off) rs))"

text \<open>
  \<^verbatim>\<open>SELECT {col_names} FROM {table_name} LIMIT {batch_size} OFFSET {offset}\<close> followed
  by \<^verbatim>\<open>fetchall()\<close>. With an empty column list the statement does not parse.
\<close>

definition sqlite_select_page ::
  "'r sqlite_conn \<Rightarrow> bool \<Rightarrow> string \<Rightarrow> int \<Rightarrow> int \<Rightarrow> (error + 'r list) \<times> 'r sqlite_conn" where
  "sqlite_select_page c columns t l off =
     (if \<not> columns then (Inl (Sqlite3 (OperationalError ''syntax error'')), c\<lparr>tick := Suc (tick c)\<rparr>)
      else case snapshots c (tick c) t of
             None \<Rightarrow> (Inl (Sqlite3 (OperationalError t)), c\<lparr>tick := Suc (tick c)\<rparr>)
           | Some rs \<Rightarrow> (Inr (sqlite_limit_offset rs l off), c\<lparr>tick := Suc (tick c)\<rparr>))"

definition sqlite_close :: "'r sqlite_conn \<Rightarrow> 'r sqlite_conn" where
  "sqlite_close c = c\<lparr>sqlite_closed := True\<rparr>"

section \<open>The destination store (psycopg2, PostgreSQL)\<close>

text \<open>
  A table is its column definitions and its rows; an index is named and belongs to a
  table. Tables and indexes share one space of relation names.
\<close>

type_synonym 'r table = "(string \<times> string) list \<times> 'r list"

record 'r db =
  tables :: "string \<rightharpoonup> 'r table"
  indexes :: "string \<rightharpoonup> string \<times> string list"

datatype ddl =
    DropTableIfExistsCascade string
  | CreateTable string "(string \<times> string) list"
  | CreateIndex string string "string list"

definition drop_table :: "string \<Rightarrow> 'r db \<Rightarrow> 'r db" where
  "drop_table t d =
     d\<lparr>tables := (tables d)(t := None),
       indexes := (\<lambda>i. case indexes d i of
                          None \<Rightarrow> None
                        | Some (t', cs) \<Rightarrow> if t' = t then None else Some (t', cs))\<rparr>"

fun apply_ddl :: "ddl \<Rightarrow> 'r db \<Rightarrow> psycopg2_error + 'r db" where
  "apply_ddl (DropTableIfExistsCascade t) d =
     (if tables d t = None \<and> indexes d t \<noteq> None then Inl (WrongObjectType t)
      else Inr (drop_table t d))"
| "apply_ddl (CreateTable t cols) d =
     (if tables d t \<noteq> None \<or> indexes d t \<noteq> None then Inl (DuplicateTable t)
      else Inr (d\<lparr>tables := (tables d)(t \<mapsto> (cols, []))\<rparr>))"
| "apply_ddl (CreateIndex i t cs) d =
     (case tables d t of
        None \<Rightarrow> Inl (UndefinedTable t)
      | Some (cols, rs) \<Rightarrow>
          if tables d i \<noteq> None \<or> indexes d i \<noteq> None then Inl (DuplicateTable i)
          else if \<not> list_all (\<lambda>c. c \<in> set (map fst cols)) cs then Inl (UndefinedColumn i)
          else Inr (d\<lparr>indexes := (indexes d)(i \<mapsto> (t, cs))\<rparr>))"

text \<open>
  One \<^verbatim>\<open>execute\<close> call may carry several statements. They run in order; the first
  that is refused or fails stops the call (the second component is then the state that
  statement found; the connection discards it, see \<open>pg_execute\<close>).
\<close>

fun run_ddl :: "(ddl \<Rightarrow> bool) \<Rightarrow> ddl list \<Rightarrow> 'r db \<Rightarrow> psycopg2_error option \<times> 'r db" where
  "run_ddl perm [] d = (None, d)"
| "run_ddl perm (s # ss) d =
     (if \<not> perm s then (Some InsufficientPrivilege, d)
      else case apply_ddl s d of
             Inl e \<Rightarrow> (Some e, d)
           | Inr d' \<Rightarrow> run_ddl perm ss d')"

text \<open>Rows are checked one at a time against the rows already there.\<close>

fun insert_rows :: "('r list \<Rightarrow> 'r \<Rightarrow> bool) \<Rightarrow> 'r list \<Rightarrow> 'r list \<Rightarrow> bool \<times> 'r list" where
  "insert_rows acc cur [] = (True, cur)"
| "insert_rows acc cur (r # rs) =
     (if acc cur r then insert_rows acc (cur @ [r]) rs else (False, cur))"

text \<open>
  What the server makes of a line of COPY data: a row, a line it cannot read, or the
  end-of-data marker. At the marker the COPY stops and succeeds, and the lines after it
  are not read. Which lines are the marker is the server's affair: PostgreSQL up to
  version 17 takes a line that holds only a backslash and a dot for it, in CSV format
  too.
\<close>

datatype 'r copy_line = Row 'r | Malformed | EndOfData

fun copy_rows ::
  "(string \<Rightarrow> 'r copy_line) \<Rightarrow> ('r list \<Rightarrow> 'r \<Rightarrow> bool) \<Rightarrow> 'r list \<Rightarrow> string list
     \<Rightarrow> psycopg2_error option \<times> 'r list" where
  "copy_rows parse acc cur [] = (None, cur)"
| "copy_rows parse acc cur (l # ls) =
     (case parse l of
        EndOfData \<Rightarrow> (None, cur)
      | Malformed \<Rightarrow> (Some BadCopyFileFormat, cur)
      | Row r \<Rightarrow> if acc cur r then copy_rows parse acc (cur @ [r]) ls
                 else (Some RowRejected, cur))"

text \<open>
  The calls a script makes on its destination connection, in order; the connection
  keeps them (\<open>oplog\<close>) so that the order of a run can be stated.
\<close>

datatype 'r pg_op =
    Execute "ddl list"
  | ExecuteMany string "'r list"
  | CopyExpert string "string list"
  | SelectCount string
  | SelectSample string
  | Commit
  | Rollback
  | Close

text \<open>
  The connection runs with autocommit off: statements work on the view of the open
  transaction (\<open>working\<close>), \<^verbatim>\<open>commit\<close> makes that view durable (\<open>committed\<close>),
  \<^verbatim>\<open>rollback\<close> and \<^verbatim>\<open>close\<close> throw it away. A statement that fails aborts the
  transaction (\<open>aborted\<close>): what the transaction did is gone, every further statement
  raises until a rollback, and a commit then commits nothing. What the server accepts is
  not the scripts' business and is a parameter of the connection: \<open>permitted\<close> says
  which statements the role may run, \<open>accepts t\<close> which row table \<open>t\<close> takes given
  the rows it holds, \<open>parse_line t\<close> how a line of COPY data for \<open>t\<close> reads.
\<close>

record 'r pg_conn =
  committed :: "'r db"
  working :: "'r db"
  closed :: bool
  aborted :: bool
  oplog :: "'r pg_op list"
  permitted :: "ddl \<Rightarrow> bool"
  accepts :: "string \<Rightarrow> 'r list \<Rightarrow> 'r \<Rightarrow> bool"
  parse_line :: "string \<Rightarrow> string \<Rightarrow> 'r copy_line"

definition pg_cursor :: "'r pg_conn \<Rightarrow> error + unit" where
  "pg_cursor c = (if closed c then Inl (Psycopg2 InterfaceError) else Inr ())"

text \<open>The call \<open>op\<close> was made and changed nothing; it was made and failed.\<close>

definition pg_logged :: "'r pg_op \<Rightarrow> 'r pg_conn \<Rightarrow> 'r pg_conn" where
  "pg_logged op c = c\<lparr>oplog := oplog c @ [op]\<rparr>"

definition pg_failed :: "'r pg_op \<Rightarrow> 'r pg_conn \<Rightarrow> 'r pg_conn" where
  "pg_failed op c = c\<lparr>working := committed c, aborted := True, oplog := oplog c @ [op]\<rparr>"

definition pg_execute :: "'r pg_conn \<Rightarrow> ddl list \<Rightarrow> (error + unit) \<times> 'r pg_conn" where
  "pg_execute c stmts =
     (if aborted c then (Inl (Psycopg2 InFailedSqlTransaction), pg_logged (Execute stmts) c)
      else if stmts = [] then (Inl (Psycopg2 EmptyQuery), pg_logged (Execute stmts) c)
      else case run_ddl (permitted c) stmts (working c) of
             (None, d) \<Rightarrow> (Inr (), c\<lparr>working := d, oplog := oplog c @ [Execute stmts]\<rparr>)
           | (Some e, d) \<Rightarrow> (Inl (Psycopg2 e), pg_failed (Execute stmts) c))"

definition set_rows :: "string \<Rightarrow> (string \<times> string) list \<Rightarrow> 'r list \<Rightarrow> 'r db \<Rightarrow> 'r db" where
  "set_rows t cols rs d = d\<lparr>tables := (tables d)(t \<mapsto> (cols, rs))\<rparr>"

definition pg_executemany :: "'r pg_conn \<Rightarrow> string \<Rightarrow> 'r list \<Rightarrow> (error + unit) \<times> 'r pg_conn" where
  "pg_executemany c t batch =
     (if aborted c then (Inl (Psycopg2 InFailedSqlTransaction), pg_logged (ExecuteMany t batch) c)
      else case tables (working c) t of
             None \<Rightarrow> (Inl (Psycopg2 (UndefinedTable t)), pg_failed (ExecuteMany t batch) c)
           | Some (cols, cur) \<Rightarrow>
               (case insert_rows (accepts c t) cur batch of
                  (ok, cur') \<Rightarrow>
                    if ok then (Inr (), c\<lparr>working := set_rows t cols cur' (working c),
                                           oplog := oplog c @ [ExecuteMany t batch]\<rparr>)
                    else (Inl (Psycopg2 RowRejected), pg_failed (ExecuteMany t batch) c)))"

text \<open>
  \<^verbatim>\<open>copy_expert("COPY t ... FROM STDIN ...", f)\<close>: the lines left in the file are
  sent; with the \<^verbatim>\<open>HEADER\<close> option the server skips the first of them.
\<close>

definition pg_copy_expert ::
  "'r pg_conn \<Rightarrow> string \<Rightarrow> bool \<Rightarrow> string list \<Rightarrow> (error + unit) \<times> 'r pg_conn" where
  "pg_copy_expert c t header lines =
     (if aborted c then (Inl (Psycopg2 InFailedSqlTransaction), pg_logged (CopyExpert t lines) c)
      else case tables (working c) t of
             None \<Rightarrow> (Inl (Psycopg2 (UndefinedTable t)), pg_failed (CopyExpert t lines) c)
           | Some (cols, cur) \<Rightarrow>
               (case copy_rows (parse_line c t) (accepts c t) cur (if header then drop 1 lines else lines) of
                  (None, cur') \<Rightarrow>
                    (Inr (), c\<lparr>working := set_rows t cols cur' (working c),
                               oplog := oplog c @ [CopyExpert t lines]\<rparr>)
                | (Some e, cur') \<Rightarrow> (Inl (Psycopg2 e), pg_failed (CopyExpert t lines) c)))"

text \<open>\<^verbatim>\<open>SELECT COUNT(*) FROM t\<close> followed by \<^verbatim>\<open>fetchone()[0]\<close>.\<close>

definition pg_count :: "'r pg_conn \<Rightarrow> string \<Rightarrow> (error + int) \<times> 'r pg_conn" where
  "pg_count c t =
     (if aborted c then (Inl (Psycopg2 InFailedSqlTransaction), pg_logged (SelectCount t) c)
      else case tables (working c) t of
             None \<Rightarrow> (Inl (Psycopg2 (UndefinedTable t)), pg_failed (SelectCount t) c)
           | Some (cols, rs) \<Rightarrow> (Inr (int (length rs)), pg_logged (SelectCount t) c))"

text \<open>\<^verbatim>\<open>SELECT * FROM t LIMIT 3\<close> followed by \<^verbatim>\<open>fetchall()\<close>.\<close>

definition pg_sample :: "'r pg_conn \<Rightarrow> string \<Rightarrow> (error + 'r list) \<times> 'r pg_conn" where
  "pg_sample c t =
     (if aborted c then (Inl (Psycopg2 InFailedSqlTransaction), pg_logged (SelectSample t) c)
      else case tables (working c) t of
             None \<Rightarrow> (Inl (Psycopg2 (UndefinedTable t)), pg_failed (SelectSample t) c)
           | Some (cols, rs) \<Rightarrow> (Inr (take 3 rs), pg_logged (SelectSample t) c))"

text \<open>
  \<^verbatim>\<open>commit\<close> on a transaction that has failed raises nothing: the server rolls the
  transaction back.
\<close>

definition pg_commit :: "'r pg_conn \<Rightarrow> (error + unit) \<times> 'r pg_conn" where
  "pg_commit c =
     (if closed c then (Inl (Psycopg2 InterfaceError), pg_logged Commit c)
      else if aborted c
      then (Inr (), c\<lparr>working := committed c, aborted := False, oplog := oplog c @ [Commit]\<rparr>)
      else (Inr (), c\<lparr>committed := working c, oplog := oplog c @ [Commit]\<rparr>))"

definition pg_rollback :: "'r pg_conn \<Rightarrow> (error + unit) \<times> 'r pg_conn" where
  "pg_rollback c =
     (if closed c then (Inl (Psycopg2 InterfaceError), pg_logged Rollback c)
      else (Inr (), c\<lparr>working := committed c, aborted := False, oplog := oplog c @ [Rollback]\<rparr>))"

text \<open>Closing never raises; the open transaction is lost.\<close>

definition pg_close :: "'r pg_conn \<Rightarrow> 'r pg_conn" where
  "pg_close c =
     c\<lparr>working := committed c, closed := True, aborted := False, oplog := oplog c @ [Close]\<rparr>"

section \<open>migrate\_to\_supabase.py\<close>

subsection \<open>create\_tables\<close>

definition argo_floats_columns :: "(string \<times> string) list" where
  "argo_floats_columns =
     [(''float_id'', ''TEXT PRIMARY KEY''),
      (''first_timestamp'', ''TEXT''),
      (''last_timestamp'', ''TEXT''),
      (''last_latitude'', ''DOUBLE PRECISION''),
      (''last_longitude'', ''DOUBLE PRECISION''),
      (''total_profiles'', ''INTEGER'')]"

definition argo_profiles_columns :: "(string \<times> string) list" where
  "argo_profiles_columns =
     [(''id'', ''BIGSERIAL''),
      (''float_id'', ''TEXT''),
      (''timestamp'', ''TEXT''),
      (''latitude'', ''DOUBLE PRECISION''),
      (''longitude'', ''DOUBLE PRECISION''),
      (''depth'', ''DOUBLE PRECISION''),
      (''temperature'', ''DOUBLE PRECISION''),
      (''salinity'', ''DOUBLE PRECISION''),
      (''pressure'', ''DOUBLE PRECISION'')]"

text \<open>The statements of \<^verbatim>\<open>create_tables\<close>, one \<^verbatim>\<open>cursor.execute\<close> each, in order.\<close>

definition create_tables_statements :: "ddl list" where
  "create_tables_statements =
     [DropTableIfExistsCascade ''argo_profiles'',
      DropTableIfExistsCascade ''argo_floats'',
      CreateTable ''argo_floats'' argo_floats_columns,
      CreateTable ''argo_profiles'' argo_profiles_columns,
      CreateIndex ''idx_profiles_float_id'' ''argo_profiles'' [''float_id''],
      CreateIndex ''idx_profiles_timestamp'' ''argo_profiles'' [''timestamp''],
      CreateIndex ''idx_profiles_lat'' ''argo_profiles'' [''latitude''],
      CreateIndex ''idx_profiles_lon'' ''argo_profiles'' [''longitude''],
      CreateIndex ''idx_profiles_location'' ''argo_profiles'' [''latitude'', ''longitude'']]"

fun pg_execute_each :: "'r pg_conn \<Rightarrow> ddl list \<Rightarrow> (error + unit) \<times> 'r pg_conn" where
  "pg_execute_each c [] = (Inr (), c)"
| "pg_execute_each c (s # ss) =
     (case pg_execute c [s] of
        (Inl e, c1) \<Rightarrow> (Inl e, c1)
      | (Inr u, c1) \<Rightarrow> pg_execute_each c1 ss)"

text \<open>
  The \<^verbatim>\<open>except\<close> clause of \<^verbatim>\<open>create_tables\<close>: roll back, then re-raise the
  exception caught (an exception of the rollback itself would replace it).
\<close>

definition create_tables_except :: "error \<Rightarrow> 'r pg_conn \<Rightarrow> (error + unit) \<times> 'r pg_conn" where
  "create_tables_except e c =
     (case pg_rollback c of
        (Inl e', c') \<Rightarrow> (Inl e', c')
      | (Inr u, c') \<Rightarrow> (Inl e, c'))"

definition create_tables :: "'r pg_conn \<Rightarrow> (error + unit) \<times> 'r pg_conn" where
  "create_tables pg_conn =
     (case pg_cursor pg_conn of
        Inl e \<Rightarrow> (Inl e, pg_conn)
      | Inr u \<Rightarrow>
          (case pg_execute_each pg_conn create_tables_statements of
             (Inl e, c1) \<Rightarrow> create_tables_except e c1
           | (Inr u, c1) \<Rightarrow>
               (case pg_commit c1 of
                  (Inl e, c2) \<Rightarrow> create_tables_except e c2
                | (Inr u, c2) \<Rightarrow> (Inr (), c2))))"

subsection \<open>migrate\_data\<close>

text \<open>
  The \<^verbatim>\<open>while offset < total_rows\<close> loop. Python's integers are unbounded, and with
  a batch size below zero the offset never reaches the total: the loop is a partial
  function, \<open>None\<close> standing for a run that does not return. Beside what the code
  returns (\<open>rows_inserted\<close>, or the exception) the result has the two connections
  and the batches the loop fetched, in order (\<open>batches\<close>): the last one is the batch
  in hand when an insert or commit raised.
\<close>

partial_function (option) paging_loop ::
  "'r sqlite_conn \<Rightarrow> 'r pg_conn \<Rightarrow> string \<Rightarrow> bool \<Rightarrow> int \<Rightarrow> int \<Rightarrow> int \<Rightarrow> int \<Rightarrow> 'r list list
     \<Rightarrow> ((error + int) \<times> 'r sqlite_conn \<times> 'r pg_conn \<times> 'r list list) option" where
  "paging_loop sqlite_conn pg_conn table_name columns batch_size total_rows offset rows_inserted batches =
     (if offset < total_rows then
        (case sqlite_select_page sqlite_conn columns table_name batch_size offset of
           (Inl e, sq1) \<Rightarrow> Some (Inl e, sq1, pg_conn, batches)
         | (Inr batch, sq1) \<Rightarrow>
             if batch = [] then Some (Inr rows_inserted, sq1, pg_conn, batches)
             else
               (case pg_executemany pg_conn table_name batch of
                  (Inl e, pg1) \<Rightarrow> Some (Inl e, sq1, pg1, batches @ [batch])
                | (Inr u, pg1) \<Rightarrow>
                    (case pg_commit pg1 of
                       (Inl e, pg2) \<Rightarrow> Some (Inl e, sq1, pg2, batches @ [batch])
                     | (Inr u, pg2) \<Rightarrow>
                         paging_loop sq1 pg2 table_name columns batch_size total_rows
                           (offset + batch_size) (rows_inserted + int (length batch))
                           (batches @ [batch]))))
      else Some (Inr rows_inserted, sqlite_conn, pg_conn, batches))"

declare paging_loop.simps [code]

definition migrate_data ::
  "'r sqlite_conn \<Rightarrow> 'r pg_conn \<Rightarrow> string \<Rightarrow> int
     \<Rightarrow> ((error + int) \<times> 'r sqlite_conn \<times> 'r pg_conn \<times> 'r list list) option" where
  "migrate_data sqlite_conn pg_conn table_name batch_size =
     (case sqlite_cursor sqlite_conn of
        Inl e \<Rightarrow> Some (Inl e, sqlite_conn, pg_conn, [])
      | Inr u \<Rightarrow>
          (case pg_cursor pg_conn of
             Inl e \<Rightarrow> Some (Inl e, sqlite_conn, pg_conn, [])
           | Inr u \<Rightarrow>
               (case sqlite_count sqlite_conn table_name of
                  (Inl e, sq1) \<Rightarrow> Some (Inl e, sq1, pg_conn, [])
                | (Inr total_rows, sq1) \<Rightarrow>
                    (case sqlite_table_info sq1 table_name of
                       (columns, sq2) \<Rightarrow>
                         paging_loop sq2 pg_conn table_name columns batch_size total_rows 0 0 []))))"

subsection \<open>verify\_migration\<close>

text \<open>
  What \<^verbatim>\<open>verify_migration\<close> prints for a table: the table and the source count with
  ``(match)'', or the table and both counts with ``(MISMATCH)''.
\<close>

datatype verify_line =
    Match string int
  | Mismatch string int int

text \<open>The \<^verbatim>\<open>for table in [...]\<close> loop, with the flag \<^verbatim>\<open>all_good\<close> and the lines printed.\<close>

fun verify_tables ::
  "'r sqlite_conn \<Rightarrow> 'r pg_conn \<Rightarrow> string list \<Rightarrow> bool \<Rightarrow> verify_line list
     \<Rightarrow> (error + bool) \<times> 'r sqlite_conn \<times> 'r pg_conn \<times> verify_line list" where
  "verify_tables sqlite_conn pg_conn [] all_good printed = (Inr all_good, sqlite_conn, pg_conn, printed)"
| "verify_tables sqlite_conn pg_conn (table # rest) all_good printed =
     (case sqlite_count sqlite_conn table of
        (Inl e, sq1) \<Rightarrow> (Inl e, sq1, pg_conn, printed)
      | (Inr sqlite_cnt, sq1) \<Rightarrow>
          (case pg_count pg_conn table of
             (Inl e, pg1) \<Rightarrow> (Inl e, sq1, pg1, printed)
           | (Inr pg_cnt, pg1) \<Rightarrow>
               if sqlite_cnt = pg_cnt
               then verify_tables sq1 pg1 rest all_good (printed @ [Match table sqlite_cnt])
               else verify_tables sq1 pg1 rest False (printed @ [Mismatch table sqlite_cnt pg_cnt])))"

definition verify_migration ::
  "'r sqlite_conn \<Rightarrow> 'r pg_conn
     \<Rightarrow> (error + bool) \<times> 'r sqlite_conn \<times> 'r pg_conn \<times> verify_line list" where
  "verify_migration sqlite_conn pg_conn =
     (case sqlite_cursor sqlite_conn of
        Inl e \<Rightarrow> (Inl e, sqlite_conn, pg_conn, [])
      | Inr u \<Rightarrow>
          (case pg_cursor pg_conn of
             Inl e \<Rightarrow> (Inl e, sqlite_conn, pg_conn, [])
           | Inr u \<Rightarrow>
               verify_tables sqlite_conn pg_conn [''argo_profiles'', ''argo_floats''] True []))"

subsection \<open>main\<close>

text \<open>
  \<^verbatim>\<open>main\<close> from the point where both connections are open. The \<^verbatim>\<open>try\<close> block
  either raises or reaches the verdict of the verifier; \<^verbatim>\<open>except Exception\<close> prints
  the failure and swallows it; \<^verbatim>\<open>finally\<close> closes both connections. The result is
  what the run printed as its outcome and the two connections as it leaves them.
\<close>

datatype outcome =
    MigrationSuccessful
  | MigrationCompletedWithErrors
  | MigrationFailed error

definition main_try ::
  "'r sqlite_conn \<Rightarrow> 'r pg_conn \<Rightarrow> ((error + bool) \<times> 'r sqlite_conn \<times> 'r pg_conn) option" where
  "main_try sqlite_conn pg_conn =
     (case create_tables pg_conn of
        (Inl e, pg1) \<Rightarrow> Some (Inl e, sqlite_conn, pg1)
      | (Inr u, pg1) \<Rightarrow>
          (case migrate_data sqlite_conn pg1 ''argo_floats'' 2000 of
             None \<Rightarrow> None
           | Some (r1, sq1, pg2, bs1) \<Rightarrow>
               (case r1 of
                  Inl e \<Rightarrow> Some (Inl e, sq1, pg2)
                | Inr n1 \<Rightarrow>
                    (case migrate_data sq1 pg2 ''argo_profiles'' 5000 of
                       None \<Rightarrow> None
                     | Some (r2, sq2, pg3, bs2) \<Rightarrow>
                         (case r2 of
                            Inl e \<Rightarrow> Some (Inl e, sq2, pg3)
                          | Inr n2 \<Rightarrow>
                              (case verify_migration sq2 pg3 of
                                 (r3, sq3, pg4, printed) \<Rightarrow> Some (r3, sq3, pg4)))))))"

definition main_migrate ::
  "'r sqlite_conn \<Rightarrow> 'r pg_conn \<Rightarrow> (outcome \<times> 'r sqlite_conn \<times> 'r pg_conn) option" where
  "main_migrate sqlite_conn pg_conn =
     (case main_try sqlite_conn pg_conn of
        None \<Rightarrow> None
      | Some (r, sq1, pg1) \<Rightarrow>
          Some (case r of
                  Inl e \<Rightarrow> MigrationFailed e
                | Inr all_good \<Rightarrow>
                    if all_good then MigrationSuccessful else MigrationCompletedWithErrors,
                sqlite_close sq1, pg_close pg1))"

section \<open>bulk\_import\_supabase.py\<close>

text \<open>
  A file the script opens is its lines, or \<open>None\<close> when it is not there. The schema
  file holds the statements of \<^verbatim>\<open>supabase_schema.sql\<close>, which is not part of the
  repository and is a parameter.
\<close>

definition create_schema :: "'r pg_conn \<Rightarrow> ddl list option \<Rightarrow> (error + unit) \<times> 'r pg_conn" where
  "create_schema conn schema_file =
     (case schema_file of
        None \<Rightarrow> (Inl (FileNotFoundError ''supabase_schema.sql''), conn)
      | Some schema_sql \<Rightarrow>
          (case pg_cursor conn of
             Inl e \<Rightarrow> (Inl e, conn)
           | Inr u \<Rightarrow>
               (case pg_execute conn schema_sql of
                  (Inl e, c1) \<Rightarrow> (Inl e, c1)
                | (Inr u, c1) \<Rightarrow> pg_commit c1)))"

text \<open>
  \<^verbatim>\<open>import_argo_floats\<close> and \<^verbatim>\<open>import_argo_profiles\<close> differ in the file, the table
  and the column list of the COPY statement only: \<^verbatim>\<open>getsize\<close> needs the file,
  \<^verbatim>\<open>next(f)\<close> skips the header line and raises on an empty file, the rest of the
  file goes to COPY, then the commit and the count that is printed.
\<close>

definition import_table :: "string \<Rightarrow> 'r pg_conn \<Rightarrow> string list option \<Rightarrow> (error + unit) \<times> 'r pg_conn" where
  "import_table t conn csv_file =
     (case csv_file of
        None \<Rightarrow> (Inl (FileNotFoundError (t @ ''.csv'')), conn)
      | Some f \<Rightarrow>
          (case pg_cursor conn of
             Inl e \<Rightarrow> (Inl e, conn)
           | Inr u \<Rightarrow>
               (case f of
                  [] \<Rightarrow> (Inl StopIteration, conn)
                | header # rest \<Rightarrow>
                    (case pg_copy_expert conn t False rest of
                       (Inl e, c1) \<Rightarrow> (Inl e, c1)
                     | (Inr u, c1) \<Rightarrow>
                         (case pg_commit c1 of
                            (Inl e, c2) \<Rightarrow> (Inl e, c2)
                          | (Inr u, c2) \<Rightarrow>
                              (case pg_count c2 t of
                                 (Inl e, c3) \<Rightarrow> (Inl e, c3)
                               | (Inr cnt, c3) \<Rightarrow> (Inr (), c3)))))))"

definition import_argo_floats :: "'r pg_conn \<Rightarrow> string list option \<Rightarrow> (error + unit) \<times> 'r pg_conn" where
  "import_argo_floats conn csv_file = import_table ''argo_floats'' conn csv_file"

definition import_argo_profiles :: "'r pg_conn \<Rightarrow> string list option \<Rightarrow> (error + unit) \<times> 'r pg_conn" where
  "import_argo_profiles conn csv_file = import_table ''argo_profiles'' conn csv_file"

definition verify_import :: "'r pg_conn \<Rightarrow> (error + int \<times> int) \<times> 'r pg_conn" where
  "verify_import conn =
     (case pg_cursor conn of
        Inl e \<Rightarrow> (Inl e, conn)
      | Inr u \<Rightarrow>
          (case pg_count conn ''argo_floats'' of
             (Inl e, c1) \<Rightarrow> (Inl e, c1)
           | (Inr floats_count, c1) \<Rightarrow>
               (case pg_count c1 ''argo_profiles'' of
                  (Inl e, c2) \<Rightarrow> (Inl e, c2)
                | (Inr profiles_count, c2) \<Rightarrow>
                    (case pg_sample c2 ''argo_floats'' of
                       (Inl e, c3) \<Rightarrow> (Inl e, c3)
                     | (Inr sample_floats, c3) \<Rightarrow>
                         (case pg_sample c3 ''argo_profiles'' of
                            (Inl e, c4) \<Rightarrow> (Inl e, c4)
                          | (Inr sample_profiles, c4) \<Rightarrow>
                              (Inr (floats_count, profiles_count), c4))))))"

text \<open>
  \<^verbatim>\<open>main\<close> from the point where the connection is open: the four steps, then
  \<^verbatim>\<open>conn.close()\<close>; \<^verbatim>\<open>except Exception\<close> prints the exception and raises it again.
\<close>

definition main_bulk_import ::
  "'r pg_conn \<Rightarrow> ddl list option \<Rightarrow> string list option \<Rightarrow> string list option
     \<Rightarrow> (error + int \<times> int) \<times> 'r pg_conn" where
  "main_bulk_import conn schema_file floats_csv profiles_csv =
     (case create_schema conn schema_file of
        (Inl e, c1) \<Rightarrow> (Inl e, c1)
      | (Inr u, c1) \<Rightarrow>
          (case import_argo_floats c1 floats_csv of
             (Inl e, c2) \<Rightarrow> (Inl e, c2)
           | (Inr u, c2) \<Rightarrow>
               (case import_argo_profiles c2 profiles_csv of
                  (Inl e, c3) \<Rightarrow> (Inl e, c3)
                | (Inr u, c3) \<Rightarrow>
                    (case verify_import c3 of
                       (Inl e, c4) \<Rightarrow> (Inl e, c4)
                     | (Inr counts, c4) \<Rightarrow> (Inr counts, pg_close c4)))))"

section \<open>import\_csv\_to\_supabase.py\<close>

text \<open>Step 1 of \<^verbatim>\<open>import_csv\<close>: read the schema file, execute it, commit.\<close>

definition import_csv_schema :: "'r pg_conn \<Rightarrow> ddl list option \<Rightarrow> (error + unit) \<times> 'r pg_conn" where
  "import_csv_schema conn schema_file =
     (case schema_file of
        None \<Rightarrow> (Inl (FileNotFoundError ''supabase_schema.sql''), conn)
      | Some schema_sql \<Rightarrow>
          (case pg_execute conn schema_sql of
             (Inl e, c1) \<Rightarrow> (Inl e, c1)
           | (Inr u, c1) \<Rightarrow> pg_commit c1))"

text \<open>
  Steps 2 and 3, the same for both tables: open the file, \<^verbatim>\<open>COPY t FROM STDIN CSV HEADER\<close>
  on the whole file, commit, and the count that is printed.
\<close>

definition import_csv_copy :: "string \<Rightarrow> 'r pg_conn \<Rightarrow> string list option \<Rightarrow> (error + unit) \<times> 'r pg_conn" where
  "import_csv_copy t conn csv_file =
     (case csv_file of
        None \<Rightarrow> (Inl (FileNotFoundError (t @ ''.csv'')), conn)
      | Some f \<Rightarrow>
          (case pg_copy_expert conn t True f of
             (Inl e, c1) \<Rightarrow> (Inl e, c1)
           | (Inr u, c1) \<Rightarrow>
               (case pg_commit c1 of
                  (Inl e, c2) \<Rightarrow> (Inl e, c2)
                | (Inr u, c2) \<Rightarrow>
                    (case pg_count c2 t of
                       (Inl e, c3) \<Rightarrow> (Inl e, c3)
                     | (Inr cnt, c3) \<Rightarrow> (Inr (), c3)))))"

text \<open>
  Step 4: the counts of both tables in one statement, then the count of the profiles
  of a sample region; both are printed only.
\<close>

definition import_csv_verify :: "'r pg_conn \<Rightarrow> (error + unit) \<times> 'r pg_conn" where
  "import_csv_verify conn =
     (case pg_count conn ''argo_floats'' of
        (Inl e, c1) \<Rightarrow> (Inl e, c1)
      | (Inr floats_count, c1) \<Rightarrow>
          (case pg_count c1 ''argo_profiles'' of
             (Inl e, c2) \<Rightarrow> (Inl e, c2)
           | (Inr profiles_count, c2) \<Rightarrow>
               (case pg_sample c2 ''argo_profiles'' of
                  (Inl e, c3) \<Rightarrow> (Inl e, c3)
                | (Inr region, c3) \<Rightarrow> (Inr (), c3))))"

definition import_csv_try ::
  "'r pg_conn \<Rightarrow> ddl list option \<Rightarrow> string list option \<Rightarrow> string list option
     \<Rightarrow> (error + unit) \<times> 'r pg_conn" where
  "import_csv_try conn schema_file floats_csv profiles_csv =
     (case import_csv_schema conn schema_file of
        (Inl e, c1) \<Rightarrow> (Inl e, c1)
      | (Inr u, c1) \<Rightarrow>
          (case import_csv_copy ''argo_floats'' c1 floats_csv of
             (Inl e, c2) \<Rightarrow> (Inl e, c2)
           | (Inr u, c2) \<Rightarrow>
               (case import_csv_copy ''argo_profiles'' c2 profiles_csv of
                  (Inl e, c3) \<Rightarrow> (Inl e, c3)
                | (Inr u, c3) \<Rightarrow> import_csv_verify c3)))"

text \<open>
  \<^verbatim>\<open>import_csv\<close> from the point where the connection is open: the cursor, the
  \<^verbatim>\<open>try\<close> block; \<^verbatim>\<open>except Exception\<close> rolls back and prints the failure (an
  exception of the rollback itself escapes); \<^verbatim>\<open>finally\<close> closes the connection.
  The result is the failure printed, if any, or the exception that escaped, and the
  connection.
\<close>

definition import_csv ::
  "'r pg_conn \<Rightarrow> ddl list option \<Rightarrow> string list option \<Rightarrow> string list option
     \<Rightarrow> (error + error option) \<times> 'r pg_conn" where
  "import_csv conn schema_file floats_csv profiles_csv =
     (case pg_cursor conn of
        Inl e \<Rightarrow> (Inl e, conn)
      | Inr u \<Rightarrow>
          (case import_csv_try conn schema_file floats_csv profiles_csv of
             (Inl e, c1) \<Rightarrow>
               (case pg_rollback c1 of
                  (Inl e', c2) \<Rightarrow> (Inl e', pg_close c2)
                | (Inr u, c2) \<Rightarrow> (Inr (Some e), pg_close c2))
           | (Inr u, c1) \<Rightarrow> (Inr None, pg_close c1)))"

section \<open>Notions used to state the properties\<close>

text \<open>The source table \<open>t\<close> holds the rows \<open>rs\<close> from now on: nobody writes to it.\<close>

definition unchanged_from :: "'r sqlite_conn \<Rightarrow> string \<Rightarrow> 'r list \<Rightarrow> bool" where
  "unchanged_from c t rs = (\<forall>k\<ge>tick c. snapshots c k t = Some rs)"

text \<open>The rows \<open>rs\<close> added at the end of table \<open>t\<close>, if the table exists.\<close>

definition append_rows :: "string \<Rightarrow> 'r list \<Rightarrow> 'r db \<Rightarrow> 'r db" where
  "append_rows t rs d =
     (case tables d t of None \<Rightarrow> d | Some (cols, cur) \<Rightarrow> set_rows t cols (cur @ rs) d)"

text \<open>The calls of the batches that went through: one \<^verbatim>\<open>executemany\<close>, then its commit.\<close>

definition batch_ops :: "string \<Rightarrow> 'r list list \<Rightarrow> 'r pg_op list" where
  "batch_ops t bs = concat (map (\<lambda>b. [ExecuteMany t b, Commit]) bs)"

text \<open>The exception is one of the destination driver: the load failed, not the read.\<close>

definition load_failed :: "error + 'a \<Rightarrow> bool" where
  "load_failed r = (case r of Inl (Psycopg2 e) \<Rightarrow> True | _ \<Rightarrow> False)"

subsection \<open>Streams\<close>

text \<open>
  The lines of a stream that a COPY reads: those before the first end-of-data marker.
\<close>

definition data_lines :: "(string \<Rightarrow> 'r copy_line) \<Rightarrow> string list \<Rightarrow> string list" where
  "data_lines parse ls = takeWhile (\<lambda>l. parse l \<noteq> EndOfData) ls"

subsection \<open>Sample stores\<close>

text \<open>
  A server that reads a line as the number of its characters, cannot read the line
  \<^verbatim>\<open>bad\<close>, and takes the line of a backslash and a dot for the end of the data.
\<close>

definition end_of_data_marker :: string where
  "end_of_data_marker = [CHR 0x5C, CHR ''.'']"

definition sample_parse_line :: "string \<Rightarrow> string \<Rightarrow> nat copy_line" where
  "sample_parse_line t l =
     (if l = ''bad'' then Malformed
      else if l = end_of_data_marker then EndOfData
      else Row (length l))"

text \<open>
  A source of five float rows and three profile rows that nobody writes to, and a
  destination with both tables empty that refuses a row equal to one it holds.
\<close>

definition sample_source :: "nat sqlite_conn" where
  "sample_source =
     \<lparr>snapshots = (\<lambda>n. [''argo_floats'' \<mapsto> [1, 2, 3, 4, 5], ''argo_profiles'' \<mapsto> [10, 11, 12]]),
      tick = 0, sqlite_closed = False\<rparr>"

definition sample_db :: "nat db" where
  "sample_db =
     \<lparr>tables = [''argo_floats'' \<mapsto> (argo_floats_columns, []),
                 ''argo_profiles'' \<mapsto> (argo_profiles_columns, [])],
      indexes = Map.empty\<rparr>"

definition sample_destination :: "nat pg_conn" where
  "sample_destination =
     \<lparr>committed = sample_db, working = sample_db, closed = False, aborted = False, oplog = [],
      permitted = (\<lambda>s. True),
      accepts = (\<lambda>t cur r. r \<notin> set cur),
      parse_line = sample_parse_line\<rparr>"

definition sample_source_duplicate :: "nat sqlite_conn" where
  "sample_source_duplicate =
     \<lparr>snapshots = (\<lambda>n. [''argo_floats'' \<mapsto> [1, 2, 3, 2, 5], ''argo_profiles'' \<mapsto> [10, 11, 12]]),
      tick = 0, sqlite_closed = False\<rparr>"

definition sample_source_shrinking :: "nat sqlite_conn" where
  "sample_source_shrinking =
     \<lparr>snapshots = (\<lambda>n. if n \<le> 2 then [''argo_floats'' \<mapsto> [1, 2, 3, 4, 5]] else [''argo_floats'' \<mapsto> [1, 2]]),
      tick = 0, sqlite_closed = False\<rparr>"

text \<open>What a run returned and the batches it fetched, without the connections.\<close>

definition returned :: "((error + int) \<times> 'r sqlite_conn \<times> 'r pg_conn \<times> 'r list list) option
    \<Rightarrow> ((error + int) \<times> 'r list list) option" where
  "returned x = map_option (\<lambda>(r, sq', pg', bs). (r, bs)) x"

text \<open>The line \<^verbatim>\<open>verify_migration\<close> prints for a table with the two counts.\<close>

definition report_line :: "string \<Rightarrow> int \<Rightarrow> int \<Rightarrow> verify_line" where
  "report_line t s d = (if s = d then Match t s else Mismatch t s d)"

text \<open>
  The detail record of a table in the words of the specification: table name, source
  count, destination count, match flag.
\<close>

definition spec_detail_record ::
  "'r sqlite_conn \<Rightarrow> 'r pg_conn \<Rightarrow> string \<Rightarrow> (string \<times> int \<times> int \<times> bool) option" where
  "spec_detail_record sqlite_conn pg_conn t =
     (case snapshots sqlite_conn (tick sqlite_conn) t of
        None \<Rightarrow> None
      | Some rs \<Rightarrow>
          (case tables (working pg_conn) t of
             None \<Rightarrow> None
           | Some (cols, rd) \<Rightarrow>
               Some (t, int (length rs), int (length rd), int (length rs) = int (length rd))))"

text \<open>Stores that hold the given rows in the two tables.\<close>

definition source_with :: "nat list \<Rightarrow> nat list \<Rightarrow> nat sqlite_conn" where
  "source_with fs ps =
     \<lparr>snapshots = (\<lambda>n. [''argo_floats'' \<mapsto> fs, ''argo_profiles'' \<mapsto> ps]),
      tick = 0, sqlite_closed = False\<rparr>"

definition db_with :: "nat list \<Rightarrow> nat list \<Rightarrow> nat db" where
  "db_with fs ps =
     \<lparr>tables = [''argo_floats'' \<mapsto> (argo_floats_columns, fs),
                 ''argo_profiles'' \<mapsto> (argo_profiles_columns, ps)],
      indexes = Map.empty\<rparr>"

definition destination_with :: "nat list \<Rightarrow> nat list \<Rightarrow> nat pg_conn" where
  "destination_with fs ps =
     \<lparr>committed = db_with fs ps, working = db_with fs ps, closed = False, aborted = False, oplog = [],
      permitted = (\<lambda>s. True),
      accepts = (\<lambda>t cur r. r \<notin> set cur),
      parse_line = sample_parse_line\<rparr>"

subsection \<open>Provisioning\<close>

text \<open>Nothing in the database bears on table \<open>t\<close>: no such table, no index on it.\<close>

definition untouched_by :: "string \<Rightarrow> 'r db \<Rightarrow> bool" where
  "untouched_by t d = (tables d t = None \<and> (\<forall>i t' cs. indexes d i = Some (t', cs) \<longrightarrow> t' \<noteq> t))"

text \<open>The names of the five indexes \<^verbatim>\<open>create_tables\<close> creates.\<close>

definition index_names :: "string list" where
  "index_names = [''idx_profiles_float_id'', ''idx_profiles_timestamp'', ''idx_profiles_lat'',
                  ''idx_profiles_lon'', ''idx_profiles_location'']"

text \<open>
  A schema file with the CREATE statements of \<^verbatim>\<open>create_tables\<close> and no DROP; a
  destination that holds \<^verbatim>\<open>argo_profiles\<close> only; a destination where another table
  has an index with one of the five names.
\<close>

definition sample_schema :: "ddl list" where
  "sample_schema = drop 2 create_tables_statements"

definition sample_destination_profiles_only :: "nat pg_conn" where
  "sample_destination_profiles_only =
     \<lparr>committed = \<lparr>tables = [''argo_profiles'' \<mapsto> (argo_profiles_columns, [10])], indexes = Map.empty\<rparr>,
      working = \<lparr>tables = [''argo_profiles'' \<mapsto> (argo_profiles_columns, [10])], indexes = Map.empty\<rparr>,
      closed = False, aborted = False, oplog = [],
      permitted = (\<lambda>s. True),
      accepts = (\<lambda>t cur r. r \<notin> set cur),
      parse_line = sample_parse_line\<rparr>"

definition sample_destination_index_clash :: "nat pg_conn" where
  "sample_destination_index_clash =
     \<lparr>committed = \<lparr>tables = [''other'' \<mapsto> ([(''latitude'', ''DOUBLE PRECISION'')], [7])],
                    indexes = [''idx_profiles_lat'' \<mapsto> (''other'', [''latitude''])]\<rparr>,
      working = \<lparr>tables = [''other'' \<mapsto> ([(''latitude'', ''DOUBLE PRECISION'')], [7])],
                  indexes = [''idx_profiles_lat'' \<mapsto> (''other'', [''latitude''])]\<rparr>,
      closed = False, aborted = False, oplog = [],
      permitted = (\<lambda>s. True),
      accepts = (\<lambda>t cur r. r \<notin> set cur),
      parse_line = sample_parse_line\<rparr>"

subsection \<open>Phases of a run\<close>

text \<open>
  The phase a call on the destination belongs to: 0 for provisioning, 1 for the load
  of \<^verbatim>\<open>argo_floats\<close>, 2 for the load of \<^verbatim>\<open>argo_profiles\<close>, 3 for verification;
  commit, rollback and close belong to none. A row count is the verifier's in
  \<^verbatim>\<open>migrate_to_supabase.py\<close> (flag \<open>True\<close>); in \<^verbatim>\<open>bulk_import_supabase.py\<close> each
  import step also counts its table, so there a count tells no phase (flag \<open>False\<close>).
\<close>

fun phase :: "bool \<Rightarrow> 'r pg_op \<Rightarrow> nat option" where
  "phase v (Execute stmts) = Some 0"
| "phase v (ExecuteMany t b) = Some (if t = ''argo_floats'' then 1 else 2)"
| "phase v (CopyExpert t ls) = Some (if t = ''argo_floats'' then 1 else 2)"
| "phase v (SelectCount t) = (if v then Some 3 else None)"
| "phase v (SelectSample t) = Some 3"
| "phase v Commit = None"
| "phase v Rollback = None"
| "phase v Close = None"

definition phases :: "bool \<Rightarrow> 'r pg_op list \<Rightarrow> nat list" where
  "phases v ops = List.map_filter (phase v) ops"

definition in_phase :: "bool \<Rightarrow> nat \<Rightarrow> 'r pg_op list \<Rightarrow> bool" where
  "in_phase v k ops = (\<forall>op\<in>set ops. phase v op = None \<or> phase v op = Some k)"

text \<open>A destination with no table at all, and what a run printed with the calls it made.\<close>

definition sample_destination_fresh :: "nat pg_conn" where
  "sample_destination_fresh =
     \<lparr>committed = \<lparr>tables = Map.empty, indexes = Map.empty\<rparr>,
      working = \<lparr>tables = Map.empty, indexes = Map.empty\<rparr>,
      closed = False, aborted = False, oplog = [],
      permitted = (\<lambda>s. True),
      accepts = (\<lambda>t cur r. r \<notin> set cur),
      parse_line = sample_parse_line\<rparr>"

definition run_log :: "(outcome \<times> 'r sqlite_conn \<times> 'r pg_conn) option \<Rightarrow> (outcome \<times> 'r pg_op list) option" where
  "run_log x = map_option (\<lambda>(out, sq', pg'). (out, oplog pg')) x"

section \<open>The paging loop\<close>

text \<open>
  Induction over the iterations of the loop, one case for each way an iteration ends.
\<close>

lemma paging_loop_induct [consumes 1, case_names exit read_error empty insert_error commit_error step]:
  assumes run: "paging_loop sq pg t cols B tot off n bs = Some y"
    and exit: "\<And>sq pg off n bs. \<not> off < tot \<Longrightarrow> P sq pg off n bs (Inr n, sq, pg, bs)"
    and read_error: "\<And>sq pg off n bs e sq1.
        off < tot \<Longrightarrow> sqlite_select_page sq cols t B off = (Inl e, sq1) \<Longrightarrow>
        P sq pg off n bs (Inl e, sq1, pg, bs)"
    and empty: "\<And>sq pg off n bs sq1.
        off < tot \<Longrightarrow> sqlite_select_page sq cols t B off = (Inr [], sq1) \<Longrightarrow>
        P sq pg off n bs (Inr n, sq1, pg, bs)"
    and insert_error: "\<And>sq pg off n bs batch sq1 e pg1.
        off < tot \<Longrightarrow> sqlite_select_page sq cols t B off = (Inr batch, sq1) \<Longrightarrow> batch \<noteq> [] \<Longrightarrow>
        pg_executemany pg t batch = (Inl e, pg1) \<Longrightarrow>
        P sq pg off n bs (Inl e, sq1, pg1, bs @ [batch])"
    and commit_error: "\<And>sq pg off n bs batch sq1 pg1 e pg2.
        off < tot \<Longrightarrow> sqlite_select_page sq cols t B off = (Inr batch, sq1) \<Longrightarrow> batch \<noteq> [] \<Longrightarrow>
        pg_executemany pg t batch = (Inr (), pg1) \<Longrightarrow> pg_commit pg1 = (Inl e, pg2) \<Longrightarrow>
        P sq pg off n bs (Inl e, sq1, pg2, bs @ [batch])"
    and step: "\<And>sq pg off n bs batch sq1 pg1 pg2 y.
        off < tot \<Longrightarrow> sqlite_select_page sq cols t B off = (Inr batch, sq1) \<Longrightarrow> batch \<noteq> [] \<Longrightarrow>
        pg_executemany pg t batch = (Inr (), pg1) \<Longrightarrow> pg_commit pg1 = (Inr (), pg2) \<Longrightarrow>
        P sq1 pg2 (off + B) (n + int (length batch)) (bs @ [batch]) y \<Longrightarrow>
        P sq pg off n bs y"
  shows "P sq pg off n bs y"
proof -
  have "t' = t \<longrightarrow> cols' = cols \<longrightarrow> B' = B \<longrightarrow> tot' = tot \<longrightarrow> P sq pg off n bs y"
    if "paging_loop sq pg t' cols' B' tot' off n bs = Some y" for t' cols' B' tot'
    using that
  proof (induction rule: paging_loop.raw_induct[rotated 1, consumes 1])
    case (1 loop sq pg t' cols' B' tot' off n bs y)
    show ?case
    proof (intro impI)
      assume eqs: "t' = t" "cols' = cols" "B' = B" "tot' = tot"
      note body = 1(2)[unfolded eqs]
      note ih = 1(1)[of _ _ t cols B tot, simplified]
      show "P sq pg off n bs y"
      proof (cases "off < tot")
        case False
        with body exit show ?thesis by auto
      next
        case True
        obtain r sq1 where sel: "sqlite_select_page sq cols t B off = (r, sq1)"
          by (cases "sqlite_select_page sq cols t B off")
        show ?thesis
        proof (cases r)
          case (Inl e)
          with body True sel read_error show ?thesis by auto
        next
          case (Inr batch)
          show ?thesis
          proof (cases "batch = []")
            case True
            with body \<open>off < tot\<close> sel Inr empty show ?thesis by auto
          next
            case False
            obtain r1 pg1 where ex: "pg_executemany pg t batch = (r1, pg1)"
              by (cases "pg_executemany pg t batch")
            show ?thesis
            proof (cases r1)
              case (Inl e)
              with body \<open>off < tot\<close> sel Inr False ex insert_error[of off sq batch sq1 pg e pg1 n bs]
              show ?thesis by auto
            next
              case r1: (Inr u)
              obtain r2 pg2 where co: "pg_commit pg1 = (r2, pg2)"
                by (cases "pg_commit pg1")
              show ?thesis
              proof (cases r2)
                case (Inl e)
                with body \<open>off < tot\<close> sel Inr False ex r1 co
                  commit_error[of off sq batch sq1 pg pg1 e pg2 n bs]
                show ?thesis by auto
              next
                case r2: (Inr u2)
                have rec: "loop sq1 pg2 t cols B tot (off + B) (n + int (length batch)) (bs @ [batch]) = Some y"
                  using body \<open>off < tot\<close> sel Inr False ex r1 co r2 by auto
                show ?thesis
                  using step[of off sq batch sq1 pg pg1 pg2 n bs y] ih[OF rec]
                    \<open>off < tot\<close> sel Inr False ex r1 co r2 by auto
              qed
            qed
          qed
        qed
      qed
    qed
  qed
  with run show ?thesis by blast
qed

lemma paging_loop_terminates:
  assumes "1 \<le> B"
  shows "\<exists>res. paging_loop sq pg t cols B tot off n bs = Some res"
proof (induction "nat (tot - off)" arbitrary: sq pg off n bs rule: less_induct)
  case less
  show ?case
  proof (cases "off < tot")
    case False
    then show ?thesis by (subst paging_loop.simps) simp
  next
    case True
    have m: "nat (tot - (off + B)) < nat (tot - off)"
      using True assms by linarith
    show ?thesis
      apply (subst paging_loop.simps)
      using less[OF m] True
      by (auto split: prod.splits sum.splits)
  qed
qed

lemma sqlite_select_page_tick:
  "sqlite_select_page c cols t l off = (r, c') \<Longrightarrow> c' = c\<lparr>tick := Suc (tick c)\<rparr>"
  by (auto simp: sqlite_select_page_def split: if_splits option.splits)

lemma sqlite_select_page_error:
  "sqlite_select_page c cols t l off = (Inl e, c') \<Longrightarrow> \<exists>e'. e = Sqlite3 e'"
  by (auto simp: sqlite_select_page_def split: if_splits option.splits)

lemma sqlite_select_page_closed:
  "sqlite_select_page c cols t l off = (r, c') \<Longrightarrow> sqlite_closed c' = sqlite_closed c"
  by (auto simp: sqlite_select_page_def split: if_splits option.splits)

lemma unchanged_from_tick:
  "unchanged_from c t rs \<Longrightarrow> unchanged_from (c\<lparr>tick := Suc (tick c)\<rparr>) t rs"
  by (simp add: unchanged_from_def)

lemma sqlite_select_page_unchanged:
  "unchanged_from c t rs \<Longrightarrow>
   sqlite_select_page c True t l off = (Inr (sqlite_limit_offset rs l off), c\<lparr>tick := Suc (tick c)\<rparr>)"
  by (simp add: sqlite_select_page_def unchanged_from_def)

lemma insert_rows_ok: "insert_rows acc cur rs = (True, cur') \<Longrightarrow> cur' = cur @ rs"
proof (induction rs arbitrary: cur)
  case Nil
  then show ?case by simp
next
  case (Cons r rs)
  from Cons.prems have "acc cur r" and "insert_rows acc (cur @ [r]) rs = (True, cur')"
    by (auto split: if_splits)
  with Cons.IH[of "cur @ [r]"] show ?case by simp
qed

lemma insert_rows_all: "\<forall>cur r. acc cur r \<Longrightarrow> insert_rows acc cur rs = (True, cur @ rs)"
  by (induction rs arbitrary: cur) auto

lemma pg_logged_simps [simp]:
  "committed (pg_logged op c) = committed c" "working (pg_logged op c) = working c"
  "closed (pg_logged op c) = closed c" "aborted (pg_logged op c) = aborted c"
  "oplog (pg_logged op c) = oplog c @ [op]" "permitted (pg_logged op c) = permitted c"
  "accepts (pg_logged op c) = accepts c" "parse_line (pg_logged op c) = parse_line c"
  by (simp_all add: pg_logged_def)

lemma pg_failed_simps [simp]:
  "committed (pg_failed op c) = committed c" "working (pg_failed op c) = committed c"
  "closed (pg_failed op c) = closed c" "aborted (pg_failed op c)"
  "oplog (pg_failed op c) = oplog c @ [op]" "permitted (pg_failed op c) = permitted c"
  "accepts (pg_failed op c) = accepts c" "parse_line (pg_failed op c) = parse_line c"
  by (simp_all add: pg_failed_def)

lemma pg_executemany_ok:
  assumes "pg_executemany c t batch = (Inr u, c')"
  shows "\<exists>cols cur. tables (working c) t = Some (cols, cur) \<and> \<not> aborted c \<and>
           c' = c\<lparr>working := set_rows t cols (cur @ batch) (working c),
                  oplog := oplog c @ [ExecuteMany t batch]\<rparr>"
  using assms
  by (auto simp: pg_executemany_def split: option.splits prod.splits if_splits dest: insert_rows_ok)

lemma pg_executemany_error:
  assumes "pg_executemany c t batch = (Inl e, c')"
  shows "(\<exists>e'. e = Psycopg2 e') \<and> committed c' = committed c \<and> closed c' = closed c \<and>
         oplog c' = oplog c @ [ExecuteMany t batch] \<and> permitted c' = permitted c \<and>
         accepts c' = accepts c \<and> parse_line c' = parse_line c"
  using assms
  by (auto simp: pg_executemany_def split: option.splits prod.splits if_splits)

lemma pg_commit_open:
  "\<not> closed c \<Longrightarrow> \<not> aborted c \<Longrightarrow>
   pg_commit c = (Inr (), c\<lparr>committed := working c, oplog := oplog c @ [Commit]\<rparr>)"
  by (simp add: pg_commit_def)

lemma pg_commit_closed: "closed c \<Longrightarrow> pg_commit c = (Inl (Psycopg2 InterfaceError), c\<lparr>oplog := oplog c @ [Commit]\<rparr>)"
  by (simp add: pg_commit_def pg_logged_def)

lemma set_rows_same: "tables d t = Some (cols, cur) \<Longrightarrow> set_rows t cols cur d = d"
  by (simp add: set_rows_def map_upd_triv)

lemma append_rows_Nil [simp]: "append_rows t [] d = d"
  by (auto simp: append_rows_def set_rows_same split: option.splits)

lemma append_rows_append: "append_rows t (xs @ ys) d = append_rows t ys (append_rows t xs d)"
  by (auto simp: append_rows_def set_rows_def split: option.splits)

lemma append_rows_set_rows:
  "tables d t = Some (cols, cur) \<Longrightarrow> set_rows t cols (cur @ rs) d = append_rows t rs d"
  by (simp add: append_rows_def)

lemma load_failed_simps [simp]:
  "load_failed (Inl (Psycopg2 e))" "\<not> load_failed (Inl (Sqlite3 e'))" "\<not> load_failed (Inr x)"
  "\<not> load_failed (Inl (FileNotFoundError f))" "\<not> load_failed (Inl StopIteration)"
  by (simp_all add: load_failed_def)

lemma paging_loop_rows_inserted:
  assumes "paging_loop sq pg t cols B tot off n bs = Some (r, sq', pg', bs')"
  shows "\<exists>new. bs' = bs @ new \<and> (\<forall>m. r = Inr m \<longrightarrow> m = n + int (sum_list (map length new)))"
proof -
  have "case y of (r, sq', pg', bs') \<Rightarrow>
          \<exists>new. bs' = bs @ new \<and> (\<forall>m. r = Inr m \<longrightarrow> m = n + int (sum_list (map length new)))"
    if "paging_loop sq pg t cols B tot off n bs = Some y" for y
    using that
  proof (induction rule: paging_loop_induct)
    case (exit sq pg off n bs)
    show ?case by simp
  next
    case (read_error sq pg off n bs e sq1)
    show ?case by simp
  next
    case (empty sq pg off n bs sq1)
    show ?case by simp
  next
    case (insert_error sq pg off n bs batch sq1 e pg1)
    show ?case by simp
  next
    case (commit_error sq pg off n bs batch sq1 pg1 e pg2)
    show ?case by simp
  next
    case (step sq pg off n bs batch sq1 pg1 pg2 y)
    obtain r sq' pg' bs' where y: "y = (r, sq', pg', bs')" by (cases y)
    from step(6) have "\<exists>new. bs' = (bs @ [batch]) @ new \<and>
        (\<forall>m. r = Inr m \<longrightarrow> m = (n + int (length batch)) + int (sum_list (map length new)))"
      unfolding y by simp
    then obtain new where a: "bs' = (bs @ [batch]) @ new"
      and b: "\<forall>m. r = Inr m \<longrightarrow> m = (n + int (length batch)) + int (sum_list (map length new))"
      by blast
    have "bs' = bs @ (batch # new)" using a by simp
    moreover have "\<forall>m. r = Inr m \<longrightarrow> m = n + int (sum_list (map length (batch # new)))"
      using b by (simp add: add.assoc)
    ultimately have "\<exists>new. bs' = bs @ new \<and>
        (\<forall>m. r = Inr m \<longrightarrow> m = n + int (sum_list (map length new)))"
      by blast
    then show ?case unfolding y by simp
  qed
  from this[OF assms] show ?thesis by simp
qed

lemma paging_loop_committed:
  assumes "paging_loop sq pg t cols B tot off n bs = Some (r, sq', pg', bs')"
    and "\<not> closed pg" and "working pg = committed pg"
  shows "\<exists>new. bs' = bs @ new \<and>
           committed pg' =
             append_rows t (concat (if load_failed r then butlast new else new)) (committed pg) \<and>
           oplog pg' =
             oplog pg @ batch_ops t (if load_failed r then butlast new else new)
                      @ (if load_failed r then [ExecuteMany t (last new)] else []) \<and>
           (load_failed r \<longrightarrow> new \<noteq> []) \<and>
           (\<not> load_failed r \<longrightarrow> working pg' = committed pg') \<and>
           \<not> closed pg'"
proof -
  have "\<not> closed pg \<longrightarrow> working pg = committed pg \<longrightarrow>
        (case y of (r, sq', pg', bs') \<Rightarrow>
         \<exists>new. bs' = bs @ new \<and>
           committed pg' =
             append_rows t (concat (if load_failed r then butlast new else new)) (committed pg) \<and>
           oplog pg' =
             oplog pg @ batch_ops t (if load_failed r then butlast new else new)
                      @ (if load_failed r then [ExecuteMany t (last new)] else []) \<and>
           (load_failed r \<longrightarrow> new \<noteq> []) \<and>
           (\<not> load_failed r \<longrightarrow> working pg' = committed pg') \<and>
           \<not> closed pg')"
    if "paging_loop sq pg t cols B tot off n bs = Some y" for y
    using that
  proof (induction rule: paging_loop_induct)
    case (exit sq pg off n bs)
    then show ?case by (auto simp: batch_ops_def)
  next
    case (read_error sq pg off n bs e sq1)
    then show ?case by (auto simp: batch_ops_def dest!: sqlite_select_page_error)
  next
    case (empty sq pg off n bs sq1)
    then show ?case by (auto simp: batch_ops_def)
  next
    case (insert_error sq pg off n bs batch sq1 e pg1)
    from pg_executemany_error[OF insert_error(4)] show ?case
      by (auto simp: batch_ops_def)
  next
    case (commit_error sq pg off n bs batch sq1 pg1 e pg2)
    from pg_executemany_ok[OF commit_error(4)] commit_error(5) show ?case
      by (auto simp: pg_commit_def split: if_splits)
  next
    case (step sq pg off n bs batch sq1 pg1 pg2 y)
    obtain r sq' pg' bs' where y: "y = (r, sq', pg', bs')" by (cases y)
    show ?case
    proof (intro impI)
      assume op: "\<not> closed pg" and wc: "working pg = committed pg"
      from pg_executemany_ok[OF step(4)] obtain cols cur where
        tb: "tables (working pg) t = Some (cols, cur)" and na: "\<not> aborted pg" and
        pg1: "pg1 = pg\<lparr>working := set_rows t cols (cur @ batch) (working pg),
                  oplog := oplog pg @ [ExecuteMany t batch]\<rparr>" by blast
      from step(5) op na pg1 have pg2: "pg2 = pg1\<lparr>committed := working pg1, oplog := oplog pg1 @ [Commit]\<rparr>"
        by (auto simp: pg_commit_def)
      have c2: "committed pg2 = append_rows t batch (committed pg)"
        using pg1 pg2 tb wc by (simp add: append_rows_set_rows)
      have w2: "working pg2 = committed pg2" "\<not> closed pg2"
        and o2: "oplog pg2 = oplog pg @ batch_ops t [batch]"
        using pg1 pg2 op by (simp_all add: batch_ops_def)
      from step(6) w2 y obtain new where
        new: "bs' = (bs @ [batch]) @ new" and
        cm: "committed pg' =
             append_rows t (concat (if load_failed r then butlast new else new)) (committed pg2)" and
        ol: "oplog pg' =
             oplog pg2 @ batch_ops t (if load_failed r then butlast new else new)
                      @ (if load_failed r then [ExecuteMany t (last new)] else [])" and
        ne: "load_failed r \<longrightarrow> new \<noteq> []" and
        wk: "\<not> load_failed r \<longrightarrow> working pg' = committed pg'" and
        cl: "\<not> closed pg'"
        by auto
      have "bs' = bs @ (batch # new)" using new by simp
      moreover have "committed pg' =
             append_rows t (concat (if load_failed r then butlast (batch # new) else batch # new)) (committed pg)"
        using cm c2 ne by (simp add: append_rows_append)
      moreover have "oplog pg' =
             oplog pg @ batch_ops t (if load_failed r then butlast (batch # new) else batch # new)
                      @ (if load_failed r then [ExecuteMany t (last (batch # new))] else [])"
        using ol o2 ne by (simp add: batch_ops_def)
      ultimately have "
         \<exists>new. bs' = bs @ new \<and>
           committed pg' =
             append_rows t (concat (if load_failed r then butlast new else new)) (committed pg) \<and>
           oplog pg' =
             oplog pg @ batch_ops t (if load_failed r then butlast new else new)
                      @ (if load_failed r then [ExecuteMany t (last new)] else []) \<and>
           (load_failed r \<longrightarrow> new \<noteq> []) \<and>
           (\<not> load_failed r \<longrightarrow> working pg' = committed pg') \<and>
           \<not> closed pg'"
        using wk cl by (intro exI[of _ "batch # new"]) simp
      then show "case y of (r, sq', pg', bs') \<Rightarrow>
         \<exists>new. bs' = bs @ new \<and>
           committed pg' =
             append_rows t (concat (if load_failed r then butlast new else new)) (committed pg) \<and>
           oplog pg' =
             oplog pg @ batch_ops t (if load_failed r then butlast new else new)
                      @ (if load_failed r then [ExecuteMany t (last new)] else []) \<and>
           (load_failed r \<longrightarrow> new \<noteq> []) \<and>
           (\<not> load_failed r \<longrightarrow> working pg' = committed pg') \<and>
           \<not> closed pg'"
        unfolding y by simp
    qed
  qed
  from this[OF assms(1)] assms(2,3) show ?thesis by simp
qed

text \<open>
  C10. For every batch size of at least one and every total row count, the paging loop
  of \<^verbatim>\<open>migrate_data\<close> returns, whatever the two stores do: the offset grows by the
  batch size at each iteration until it reaches the total, and an empty batch, a failed
  read or a failed load end it at once. When it returns normally, \<^verbatim>\<open>rows_inserted\<close>
  is the sum of the lengths of the batches it processed.
\<close>

theorem paging_loop_returns_row_count:
  assumes "1 \<le> batch_size"
  shows "\<exists>r sq' pg' bs.
           paging_loop sqlite_conn pg_conn table_name columns batch_size total_rows 0 0 [] =
             Some (r, sq', pg', bs) \<and>
           (\<forall>n. r = Inr n \<longrightarrow> n = int (sum_list (map length bs)))"
proof -
  obtain res where res:
    "paging_loop sqlite_conn pg_conn table_name columns batch_size total_rows 0 0 [] = Some res"
    using paging_loop_terminates[OF assms] by blast
  obtain r sq' pg' bs where "res = (r, sq', pg', bs)" by (cases res)
  with res paging_loop_rows_inserted[of sqlite_conn pg_conn table_name columns batch_size
      total_rows 0 0 "[]" r sq' pg' bs]
  show ?thesis by auto
qed

theorem paging_loop_returns_row_count_witness:
  "(1::int) \<le> 2 \<and>
   (\<exists>r sq' pg' bs.
      paging_loop sample_source sample_destination ''argo_floats'' True 2 5 0 0 [] =
        Some (r, sq', pg', bs) \<and>
      (\<forall>n. r = Inr n \<longrightarrow> n = int (sum_list (map length bs))))"
  using paging_loop_returns_row_count[of 2 sample_source sample_destination "''argo_floats''" True 5]
  by simp

section \<open>migrate\_data\<close>

lemma page_of_unchanged:
  assumes "unchanged_from sq t rows" and "sqlite_select_page sq True t B off = (r, sq1)"
  shows "r = Inr (sqlite_limit_offset rows B off)" and "unchanged_from sq1 t rows"
  using assms sqlite_select_page_unchanged[OF assms(1), of B off]
  by (auto simp: unchanged_from_def)

lemma page_length:
  assumes "1 \<le> B" and "0 \<le> off"
  shows "int (length (sqlite_limit_offset rows B off)) = min B (int (length rows) - off)
         \<or> (int (length rows) \<le> off \<and> sqlite_limit_offset rows B off = [])"
  using assms by (auto simp: sqlite_limit_offset_def min_def)

lemma page_split:
  assumes "1 \<le> B" and "0 \<le> off"
  shows "sqlite_limit_offset rows B off @ drop (nat (off + B)) rows = drop (nat off) rows"
proof -
  have "nat (off + B) = nat B + nat off" using assms by linarith
  then show ?thesis using assms
    by (simp add: sqlite_limit_offset_def flip: drop_drop)
qed

lemma paging_loop_partition:
  assumes run: "paging_loop sq pg t True B tot off n bs = Some (r, sq', pg', bs')"
    and B: "1 \<le> B" and tot: "tot = int (length rows)"
    and src: "unchanged_from sq t rows" and off: "0 \<le> off"
  shows "\<exists>new rest. bs' = bs @ new \<and> concat new @ rest = drop (nat off) rows \<and>
           ((\<exists>m. r = Inr m) \<longrightarrow> rest = []) \<and>
           (\<forall>i. Suc i < length new \<longrightarrow> int (length (new ! i)) = B) \<and>
           (\<forall>b\<in>set new. b \<noteq> [] \<and> int (length b) \<le> B) \<and>
           (new \<noteq> [] \<longrightarrow> off < tot)"
proof -
  have "unchanged_from sq t rows \<longrightarrow> 0 \<le> off \<longrightarrow>
        (case y of (r, sq', pg', bs') \<Rightarrow>
           \<exists>new rest. bs' = bs @ new \<and> concat new @ rest = drop (nat off) rows \<and>
           ((\<exists>m. r = Inr m) \<longrightarrow> rest = []) \<and>
           (\<forall>i. Suc i < length new \<longrightarrow> int (length (new ! i)) = B) \<and>
           (\<forall>b\<in>set new. b \<noteq> [] \<and> int (length b) \<le> B) \<and>
           (new \<noteq> [] \<longrightarrow> off < tot))"
    if "paging_loop sq pg t True B tot off n bs = Some y" for y
    using that
  proof (induction rule: paging_loop_induct)
    case (exit sq pg off n bs)
    then show ?case using tot by auto
  next
    case (read_error sq pg off n bs e sq1)
    then show ?case by (auto dest: page_of_unchanged(1))
  next
    case (empty sq pg off n bs sq1)
    show ?case
    proof (intro impI)
      assume u: "unchanged_from sq t rows" and o: "0 \<le> off"
      from page_of_unchanged(1)[OF u empty(2)] have "sqlite_limit_offset rows B off = []" by simp
      with page_length[OF B o, of rows] empty(1) tot B have False
        by (auto simp: min_def split: if_splits)
      then show "case (Inr n, sq1, pg, bs) of (r, sq', pg', bs') \<Rightarrow>
           \<exists>new rest. bs' = bs @ new \<and> concat new @ rest = drop (nat off) rows \<and>
           ((\<exists>m. r = Inr m) \<longrightarrow> rest = []) \<and>
           (\<forall>i. Suc i < length new \<longrightarrow> int (length (new ! i)) = B) \<and>
           (\<forall>b\<in>set new. b \<noteq> [] \<and> int (length b) \<le> B) \<and>
           (new \<noteq> [] \<longrightarrow> off < tot)" ..
    qed
  next
    case (insert_error sq pg off n bs batch sq1 e pg1)
    show ?case
    proof (intro impI)
      assume u: "unchanged_from sq t rows" and o: "0 \<le> off"
      from page_of_unchanged(1)[OF u insert_error(2)]
      have b: "batch = sqlite_limit_offset rows B off" by simp
      have len: "int (length batch) \<le> B"
        using page_length[OF B o, of rows] b B by (auto simp: min_def)
      have "\<exists>new rest. bs @ [batch] = bs @ new \<and> concat new @ rest = drop (nat off) rows \<and>
           (\<forall>i. Suc i < length new \<longrightarrow> int (length (new ! i)) = B) \<and>
           (\<forall>b\<in>set new. b \<noteq> [] \<and> int (length b) \<le> B) \<and>
           (new \<noteq> [] \<longrightarrow> off < tot)"
        using page_split[OF B o, of rows] b len insert_error(1,3)
        by (intro exI[of _ "[batch]"] exI[of _ "drop (nat (off + B)) rows"]) simp
      then show "case (Inl e, sq1, pg1, bs @ [batch]) of (r, sq', pg', bs') \<Rightarrow>
           \<exists>new rest. bs' = bs @ new \<and> concat new @ rest = drop (nat off) rows \<and>
           ((\<exists>m. r = Inr m) \<longrightarrow> rest = []) \<and>
           (\<forall>i. Suc i < length new \<longrightarrow> int (length (new ! i)) = B) \<and>
           (\<forall>b\<in>set new. b \<noteq> [] \<and> int (length b) \<le> B) \<and>
           (new \<noteq> [] \<longrightarrow> off < tot)" by simp
    qed
  next
    case (commit_error sq pg off n bs batch sq1 pg1 e pg2)
    show ?case
    proof (intro impI)
      assume u: "unchanged_from sq t rows" and o: "0 \<le> off"
      from page_of_unchanged(1)[OF u commit_error(2)]
      have b: "batch = sqlite_limit_offset rows B off" by simp
      have len: "int (length batch) \<le> B"
        using page_length[OF B o, of rows] b B by (auto simp: min_def)
      have "\<exists>new rest. bs @ [batch] = bs @ new \<and> concat new @ rest = drop (nat off) rows \<and>
           (\<forall>i. Suc i < length new \<longrightarrow> int (length (new ! i)) = B) \<and>
           (\<forall>b\<in>set new. b \<noteq> [] \<and> int (length b) \<le> B) \<and>
           (new \<noteq> [] \<longrightarrow> off < tot)"
        using page_split[OF B o, of rows] b len commit_error(1,3)
        by (intro exI[of _ "[batch]"] exI[of _ "drop (nat (off + B)) rows"]) simp
      then show "case (Inl e, sq1, pg2, bs @ [batch]) of (r, sq', pg', bs') \<Rightarrow>
           \<exists>new rest. bs' = bs @ new \<and> concat new @ rest = drop (nat off) rows \<and>
           ((\<exists>m. r = Inr m) \<longrightarrow> rest = []) \<and>
           (\<forall>i. Suc i < length new \<longrightarrow> int (length (new ! i)) = B) \<and>
           (\<forall>b\<in>set new. b \<noteq> [] \<and> int (length b) \<le> B) \<and>
           (new \<noteq> [] \<longrightarrow> off < tot)" by simp
    qed
  next
    case (step sq pg off n bs batch sq1 pg1 pg2 y)
    obtain r sq' pg' bs' where y: "y = (r, sq', pg', bs')" by (cases y)
    show ?case
    proof (intro impI)
      assume u: "unchanged_from sq t rows" and o: "0 \<le> off"
      from page_of_unchanged[OF u step(2)]
      have b: "batch = sqlite_limit_offset rows B off" and u1: "unchanged_from sq1 t rows"
        by simp_all
      have o1: "0 \<le> off + B" using o B by simp
      from step(6) u1 o1 y obtain new rest where
        new: "bs' = (bs @ [batch]) @ new" and
        cat: "concat new @ rest = drop (nat (off + B)) rows" and
        fin: "(\<exists>m. r = Inr m) \<longrightarrow> rest = []" and
        full: "\<forall>i. Suc i < length new \<longrightarrow> int (length (new ! i)) = B" and
        sz: "\<forall>b\<in>set new. b \<noteq> [] \<and> int (length b) \<le> B" and
        ne: "new \<noteq> [] \<longrightarrow> off + B < tot"
        by auto
      have len: "int (length batch) \<le> B"
        using page_length[OF B o, of rows] b B by (auto simp: min_def)
      have fullb: "new \<noteq> [] \<Longrightarrow> int (length batch) = B"
        using page_length[OF B o, of rows] b ne tot B by (auto simp: min_def)
      have full': "\<forall>i. Suc i < length (batch # new) \<longrightarrow> int (length ((batch # new) ! i)) = B"
      proof (intro allI impI)
        fix i assume i: "Suc i < length (batch # new)"
        show "int (length ((batch # new) ! i)) = B"
        proof (cases i)
          case 0
          with i have "new \<noteq> []" by auto
          with fullb 0 show ?thesis by simp
        next
          case (Suc j)
          with i full show ?thesis by simp
        qed
      qed
      have "concat (batch # new) @ rest = drop (nat off) rows"
        using cat page_split[OF B o, of rows] b by simp
      then have "\<exists>new rest. bs' = bs @ new \<and> concat new @ rest = drop (nat off) rows \<and>
           ((\<exists>m. r = Inr m) \<longrightarrow> rest = []) \<and>
           (\<forall>i. Suc i < length new \<longrightarrow> int (length (new ! i)) = B) \<and>
           (\<forall>b\<in>set new. b \<noteq> [] \<and> int (length b) \<le> B) \<and>
           (new \<noteq> [] \<longrightarrow> off < tot)"
        using new fin full' sz len step(1,3)
        by (intro exI[of _ "batch # new"] exI[of _ rest]) simp
      then show "case y of (r, sq', pg', bs') \<Rightarrow>
           \<exists>new rest. bs' = bs @ new \<and> concat new @ rest = drop (nat off) rows \<and>
           ((\<exists>m. r = Inr m) \<longrightarrow> rest = []) \<and>
           (\<forall>i. Suc i < length new \<longrightarrow> int (length (new ! i)) = B) \<and>
           (\<forall>b\<in>set new. b \<noteq> [] \<and> int (length b) \<le> B) \<and>
           (new \<noteq> [] \<longrightarrow> off < tot)"
        unfolding y by simp
    qed
  qed
  from this[OF run] src off show ?thesis by simp
qed

lemma sqlite_count_unchanged:
  "unchanged_from c t rs \<Longrightarrow> sqlite_count c t = (Inr (int (length rs)), c\<lparr>tick := Suc (tick c)\<rparr>)"
  by (simp add: sqlite_count_def unchanged_from_def)

lemma sqlite_table_info_unchanged:
  "unchanged_from c t rs \<Longrightarrow> sqlite_table_info c t = (True, c\<lparr>tick := Suc (tick c)\<rparr>)"
  by (simp add: sqlite_table_info_def unchanged_from_def)

lemma migrate_data_returns:
  assumes "1 \<le> B"
  shows "\<exists>res. migrate_data sq pg t B = Some res"
  using paging_loop_terminates[OF assms]
  by (auto simp: migrate_data_def split: sum.splits prod.splits)

lemma migrate_data_loop:
  assumes "migrate_data sq pg t B = Some (r, sq', pg', bs)"
  shows "(bs = [] \<and> pg' = pg \<and> (\<exists>e. r = Inl e)) \<or>
         (\<not> sqlite_closed sq \<and> \<not> closed pg \<and>
          (\<exists>rs. snapshots sq (tick sq) t = Some rs \<and>
           paging_loop (sq\<lparr>tick := Suc (Suc (tick sq))\<rparr>) pg t (snapshots sq (Suc (tick sq)) t \<noteq> None) B
              (int (length rs)) 0 0 [] = Some (r, sq', pg', bs)))"
  using assms
  by (auto simp: migrate_data_def sqlite_cursor_def pg_cursor_def sqlite_count_def
      sqlite_table_info_def split: sum.splits prod.splits if_splits option.splits)

text \<open>Running the model on a sample: the definitions are unfolded by the simplifier.\<close>

lemmas run_defs = migrate_data_def sqlite_cursor_def pg_cursor_def sqlite_count_def
  sqlite_table_info_def sqlite_select_page_def sqlite_limit_offset_def
  pg_executemany_def pg_commit_def set_rows_def paging_loop.simps

lemma sample_run_returned:
  "returned (migrate_data sample_source sample_destination ''argo_floats'' 2) =
     Some (Inr 5, [[1, 2], [3, 4], [5]])"
  by (simp add: returned_def run_defs sample_source_def sample_destination_def sample_db_def)

text \<open>
  C1. With a batch size of at least one and a source table that nobody writes to during
  the read, \<^verbatim>\<open>migrate_data\<close> returns, the batches it fetched are consecutive
  pieces of the table from its first row on (no row twice, none skipped), and when it
  returns normally their concatenation is the whole table, each row once, and the count
  returned is the number of rows.
\<close>

theorem migrate_data_partition:
  assumes "1 \<le> batch_size" and "unchanged_from sqlite_conn table_name rows"
  shows "\<exists>r sq' pg' bs.
           migrate_data sqlite_conn pg_conn table_name batch_size = Some (r, sq', pg', bs) \<and>
           (\<exists>rest. concat bs @ rest = rows) \<and>
           (\<forall>n. r = Inr n \<longrightarrow> concat bs = rows \<and> n = int (length rows))"
proof -
  obtain res where "migrate_data sqlite_conn pg_conn table_name batch_size = Some res"
    using migrate_data_returns[OF assms(1)] by blast
  then obtain r sq' pg' bs where
    run: "migrate_data sqlite_conn pg_conn table_name batch_size = Some (r, sq', pg', bs)"
    by (cases res) auto
  from migrate_data_loop[OF run]
  have "(\<exists>rest. concat bs @ rest = rows) \<and>
        (\<forall>n. r = Inr n \<longrightarrow> concat bs = rows \<and> n = int (length rows))"
  proof
    assume "bs = [] \<and> pg' = pg_conn \<and> (\<exists>e. r = Inl e)"
    then show ?thesis by auto
  next
    assume a: "\<not> sqlite_closed sqlite_conn \<and> \<not> closed pg_conn \<and>
          (\<exists>rs. snapshots sqlite_conn (tick sqlite_conn) table_name = Some rs \<and>
           paging_loop (sqlite_conn\<lparr>tick := Suc (Suc (tick sqlite_conn))\<rparr>) pg_conn table_name
              (snapshots sqlite_conn (Suc (tick sqlite_conn)) table_name \<noteq> None) batch_size
              (int (length rs)) 0 0 [] = Some (r, sq', pg', bs))"
    have s0: "snapshots sqlite_conn (tick sqlite_conn) table_name = Some rows"
      and s1: "snapshots sqlite_conn (Suc (tick sqlite_conn)) table_name = Some rows"
      using assms(2) by (simp_all add: unchanged_from_def)
    have u: "unchanged_from (sqlite_conn\<lparr>tick := Suc (Suc (tick sqlite_conn))\<rparr>) table_name rows"
      using assms(2) by (simp add: unchanged_from_def)
    from a s0 s1 have loop:
      "paging_loop (sqlite_conn\<lparr>tick := Suc (Suc (tick sqlite_conn))\<rparr>) pg_conn table_name
          True batch_size (int (length rows)) 0 0 [] = Some (r, sq', pg', bs)"
      by auto
    from paging_loop_partition[OF loop assms(1) refl u]
    obtain new rest where "bs = [] @ new" and "concat new @ rest = drop (nat 0) rows"
      and "(\<exists>m. r = Inr m) \<longrightarrow> rest = []"
      by blast
    then have cat: "concat bs @ rest = rows" and fin: "(\<exists>m. r = Inr m) \<longrightarrow> rest = []"
      by simp_all
    from paging_loop_rows_inserted[OF loop]
    obtain new' where "bs = [] @ new'"
      and "\<forall>m. r = Inr m \<longrightarrow> m = 0 + int (sum_list (map length new'))"
      by blast
    then have cnt: "\<forall>m. r = Inr m \<longrightarrow> m = int (length (concat bs))"
      by (simp add: length_concat)
    have "\<forall>n. r = Inr n \<longrightarrow> concat bs = rows \<and> n = int (length rows)"
    proof (intro allI impI)
      fix n assume rn: "r = Inr n"
      with fin have "rest = []" by blast
      with cat have "concat bs = rows" by simp
      moreover from cnt rn have "n = int (length (concat bs))" by blast
      ultimately show "concat bs = rows \<and> n = int (length rows)" by simp
    qed
    with cat show ?thesis by blast
  qed
  with run show ?thesis by blast
qed

theorem migrate_data_partition_witness:
  "(1::int) \<le> 2 \<and> unchanged_from sample_source ''argo_floats'' [1, 2, 3, 4, 5] \<and>
   (\<exists>sq' pg'. migrate_data sample_source sample_destination ''argo_floats'' 2 =
        Some (Inr 5, sq', pg', [[1, 2], [3, 4], [5]])) \<and>
   concat [[1, 2], [3, 4], [5]] = [1, 2, 3, 4, 5::nat]"
proof -
  have u: "unchanged_from sample_source ''argo_floats'' [1, 2, 3, 4, 5]"
    by (simp add: unchanged_from_def sample_source_def)
  from migrate_data_partition[OF _ u, of 2 sample_destination]
  obtain r sq' pg' bs where
    run: "migrate_data sample_source sample_destination ''argo_floats'' 2 = Some (r, sq', pg', bs)"
    by auto
  with sample_run_returned have "r = Inr 5" "bs = [[1, 2], [3, 4], [5]]"
    by (simp_all add: returned_def)
  with run u show ?thesis by auto
qed

lemma append_rows_tables:
  "tables (append_rows t rs d) t' =
     (if t' = t then map_option (\<lambda>(cols, cur). (cols, cur @ rs)) (tables d t) else tables d t')"
  by (simp add: append_rows_def set_rows_def split: option.splits)

lemma append_rows_indexes: "indexes (append_rows t rs d) = indexes d"
  by (simp add: append_rows_def set_rows_def split: option.splits)

lemma batch_ops_Nil [simp]: "batch_ops t [] = []"
  by (simp add: batch_ops_def)

lemma sample_failing_run_returned:
  "returned (migrate_data sample_source_duplicate sample_destination ''argo_floats'' 2) =
     Some (Inl (Psycopg2 RowRejected), [[1, 2], [3, 2]])"
  by (simp add: returned_def run_defs sample_source_duplicate_def sample_destination_def sample_db_def)

lemma sample_shrinking_run_returned:
  "returned (migrate_data sample_source_shrinking sample_destination ''argo_floats'' 2) =
     Some (Inr 2, [[1, 2]])"
  by (simp add: returned_def run_defs sample_source_shrinking_def sample_destination_def sample_db_def)

text \<open>
  C2. \<^verbatim>\<open>migrate_data\<close> sends each batch in one \<^verbatim>\<open>executemany\<close> call and commits
  right after it: the calls on the destination are, batch after batch, the insert and
  its commit. Called with no transaction open on the destination (as \<^verbatim>\<open>main\<close> does,
  \<^verbatim>\<open>create_tables\<close> having committed), if the load raises with batch \<open>k\<close> in hand
  (the last of the \<open>k\<close> batches fetched), the destination durably holds the rows of
  batches \<open>1..k-1\<close> added to the table and no row of batch \<open>k\<close>; if the load does
  not raise, it holds the rows of all the batches fetched.
\<close>

theorem migrate_data_commits_whole_batches:
  assumes "migrate_data sqlite_conn pg_conn table_name batch_size = Some (r, sq', pg', bs)"
    and "working pg_conn = committed pg_conn"
  shows "(load_failed r \<longrightarrow>
            committed pg' = append_rows table_name (concat (butlast bs)) (committed pg_conn)) \<and>
         (\<not> load_failed r \<longrightarrow>
            committed pg' = append_rows table_name (concat bs) (committed pg_conn)) \<and>
         oplog pg' =
           oplog pg_conn @ batch_ops table_name (if load_failed r then butlast bs else bs)
             @ (if load_failed r \<and> bs \<noteq> [] then [ExecuteMany table_name (last bs)] else [])"
proof -
  from migrate_data_loop[OF assms(1)] show ?thesis
  proof
    assume "bs = [] \<and> pg' = pg_conn \<and> (\<exists>e. r = Inl e)"
    then show ?thesis by simp
  next
    assume a: "\<not> sqlite_closed sqlite_conn \<and> \<not> closed pg_conn \<and>
          (\<exists>rs. snapshots sqlite_conn (tick sqlite_conn) table_name = Some rs \<and>
           paging_loop (sqlite_conn\<lparr>tick := Suc (Suc (tick sqlite_conn))\<rparr>) pg_conn table_name
              (snapshots sqlite_conn (Suc (tick sqlite_conn)) table_name \<noteq> None) batch_size
              (int (length rs)) 0 0 [] = Some (r, sq', pg', bs))"
    then have op: "\<not> closed pg_conn" by simp
    from a obtain tot where loop:
      "paging_loop (sqlite_conn\<lparr>tick := Suc (Suc (tick sqlite_conn))\<rparr>) pg_conn table_name
              (snapshots sqlite_conn (Suc (tick sqlite_conn)) table_name \<noteq> None) batch_size
              tot 0 0 [] = Some (r, sq', pg', bs)"
      by blast
    from paging_loop_committed[OF loop op assms(2)]
    obtain new where n: "bs = [] @ new"
      and c: "committed pg' =
             append_rows table_name (concat (if load_failed r then butlast new else new)) (committed pg_conn)"
      and o: "oplog pg' =
             oplog pg_conn @ batch_ops table_name (if load_failed r then butlast new else new)
                      @ (if load_failed r then [ExecuteMany table_name (last new)] else [])"
      and ne: "load_failed r \<longrightarrow> new \<noteq> []"
      by blast
    from n have "new = bs" by simp
    with c o ne show ?thesis by simp
  qed
qed

theorem migrate_data_commits_whole_batches_witness:
  "working sample_destination = committed sample_destination \<and>
   (\<exists>sq' pg'.
      migrate_data sample_source_duplicate sample_destination ''argo_floats'' 2 =
        Some (Inl (Psycopg2 RowRejected), sq', pg', [[1, 2], [3, 2]]) \<and>
      tables (committed pg') ''argo_floats'' = Some (argo_floats_columns, [1, 2]) \<and>
      oplog pg' = [ExecuteMany ''argo_floats'' [1, 2], Commit, ExecuteMany ''argo_floats'' [3, 2]])"
proof -
  have w: "working sample_destination = committed sample_destination"
    by (simp add: sample_destination_def)
  obtain res where "migrate_data sample_source_duplicate sample_destination ''argo_floats'' 2 = Some res"
    using migrate_data_returns[of 2 sample_source_duplicate sample_destination "''argo_floats''"]
    by auto
  then obtain r sq' pg' bs where
    run: "migrate_data sample_source_duplicate sample_destination ''argo_floats'' 2 = Some (r, sq', pg', bs)"
    by (cases res) auto
  with sample_failing_run_returned have r: "r = Inl (Psycopg2 RowRejected)" and bs: "bs = [[1, 2], [3, 2]]"
    by (simp_all add: returned_def)
  from migrate_data_commits_whole_batches[OF run w] r bs
  have "committed pg' = append_rows ''argo_floats'' [1, 2] (committed sample_destination)"
    and "oplog pg' = oplog sample_destination @ batch_ops ''argo_floats'' [[1, 2]] @ [ExecuteMany ''argo_floats'' [3, 2]]"
    by simp_all
  then have "tables (committed pg') ''argo_floats'' = Some (argo_floats_columns, [1, 2])"
    and "oplog pg' = [ExecuteMany ''argo_floats'' [1, 2], Commit, ExecuteMany ''argo_floats'' [3, 2]]"
    by (simp_all add: append_rows_tables sample_destination_def sample_db_def batch_ops_def)
  with run r bs w show ?thesis by blast
qed

text \<open>
  C7. In the paging loop, a page query that returns no row ends the loop at once, with
  the count so far, also when the offset is still below the total counted at the start.
  And with a batch size of at least one and a source that nobody writes to, every batch
  fetched is non-empty and has at most \<^verbatim>\<open>batch_size\<close> rows, and every batch but the
  last has exactly \<^verbatim>\<open>batch_size\<close> rows: only the last one may be shorter.
\<close>

theorem empty_batch_ends_paging:
  "(offset < total_rows \<and>
    sqlite_select_page sqlite_conn columns table_name batch_size offset = (Inr [], sq1) \<longrightarrow>
      paging_loop sqlite_conn pg_conn table_name columns batch_size total_rows offset rows_inserted batches =
        Some (Inr rows_inserted, sq1, pg_conn, batches)) \<and>
   (1 \<le> batch_size \<and> unchanged_from sqlite_conn table_name rows \<and>
    migrate_data sqlite_conn pg_conn table_name batch_size = Some (r, sq', pg', bs) \<longrightarrow>
      (\<forall>b\<in>set bs. b \<noteq> [] \<and> int (length b) \<le> batch_size) \<and>
      (\<forall>i. Suc i < length bs \<longrightarrow> int (length (bs ! i)) = batch_size))"
proof (intro conjI impI)
  assume "offset < total_rows \<and>
    sqlite_select_page sqlite_conn columns table_name batch_size offset = (Inr [], sq1)"
  then show "paging_loop sqlite_conn pg_conn table_name columns batch_size total_rows offset rows_inserted batches =
        Some (Inr rows_inserted, sq1, pg_conn, batches)"
    by (subst paging_loop.simps) simp
next
  assume h: "1 \<le> batch_size \<and> unchanged_from sqlite_conn table_name rows \<and>
    migrate_data sqlite_conn pg_conn table_name batch_size = Some (r, sq', pg', bs)"
  then have B: "1 \<le> batch_size" and u0: "unchanged_from sqlite_conn table_name rows"
    and run: "migrate_data sqlite_conn pg_conn table_name batch_size = Some (r, sq', pg', bs)"
    by simp_all
  have "(\<forall>b\<in>set bs. b \<noteq> [] \<and> int (length b) \<le> batch_size) \<and>
      (\<forall>i. Suc i < length bs \<longrightarrow> int (length (bs ! i)) = batch_size)"
    using migrate_data_loop[OF run]
  proof
    assume "bs = [] \<and> pg' = pg_conn \<and> (\<exists>e. r = Inl e)"
    then show ?thesis by simp
  next
    assume a: "\<not> sqlite_closed sqlite_conn \<and> \<not> closed pg_conn \<and>
          (\<exists>rs. snapshots sqlite_conn (tick sqlite_conn) table_name = Some rs \<and>
           paging_loop (sqlite_conn\<lparr>tick := Suc (Suc (tick sqlite_conn))\<rparr>) pg_conn table_name
              (snapshots sqlite_conn (Suc (tick sqlite_conn)) table_name \<noteq> None) batch_size
              (int (length rs)) 0 0 [] = Some (r, sq', pg', bs))"
    have s0: "snapshots sqlite_conn (tick sqlite_conn) table_name = Some rows"
      and s1: "snapshots sqlite_conn (Suc (tick sqlite_conn)) table_name = Some rows"
      using u0 by (simp_all add: unchanged_from_def)
    have u: "unchanged_from (sqlite_conn\<lparr>tick := Suc (Suc (tick sqlite_conn))\<rparr>) table_name rows"
      using u0 by (simp add: unchanged_from_def)
    from a s0 s1 have loop:
      "paging_loop (sqlite_conn\<lparr>tick := Suc (Suc (tick sqlite_conn))\<rparr>) pg_conn table_name
          True batch_size (int (length rows)) 0 0 [] = Some (r, sq', pg', bs)"
      by auto
    from paging_loop_partition[OF loop B refl u]
    obtain new where "bs = [] @ new"
      and "\<forall>i. Suc i < length new \<longrightarrow> int (length (new ! i)) = batch_size"
      and "\<forall>b\<in>set new. b \<noteq> [] \<and> int (length b) \<le> batch_size"
      by blast
    then show ?thesis by simp
  qed
  then show "\<forall>b\<in>set bs. b \<noteq> [] \<and> int (length b) \<le> batch_size"
    and "\<forall>i. Suc i < length bs \<longrightarrow> int (length (bs ! i)) = batch_size"
    by simp_all
qed

theorem empty_batch_ends_paging_witness:
  "(2::int) < 5 \<and>
   sqlite_select_page (sample_source_shrinking\<lparr>tick := 3\<rparr>) True ''argo_floats'' 2 2 =
     (Inr [], sample_source_shrinking\<lparr>tick := 4\<rparr>) \<and>
   paging_loop (sample_source_shrinking\<lparr>tick := 3\<rparr>) sample_destination ''argo_floats'' True 2 5 2 2 [[1, 2]] =
     Some (Inr 2, sample_source_shrinking\<lparr>tick := 4\<rparr>, sample_destination, [[1, 2]]) \<and>
   returned (migrate_data sample_source_shrinking sample_destination ''argo_floats'' 2) =
     Some (Inr 2, [[1, 2]]) \<and>
   (1::int) \<le> 2 \<and> unchanged_from sample_source ''argo_floats'' [1, 2, 3, 4, 5] \<and>
   returned (migrate_data sample_source sample_destination ''argo_floats'' 2) =
     Some (Inr 5, [[1, 2], [3, 4], [5]]) \<and>
   int (length [5::nat]) < 2"
proof -
  have p: "sqlite_select_page (sample_source_shrinking\<lparr>tick := 3\<rparr>) True ''argo_floats'' 2 2 =
     (Inr [], sample_source_shrinking\<lparr>tick := 4\<rparr>)"
    by (simp add: sqlite_select_page_def sqlite_limit_offset_def sample_source_shrinking_def)
  have u: "unchanged_from sample_source ''argo_floats'' [1, 2, 3, 4, 5]"
    by (simp add: unchanged_from_def sample_source_def)
  from empty_batch_ends_paging[of 2 5 "sample_source_shrinking\<lparr>tick := 3\<rparr>" True "''argo_floats''" 2
      "sample_source_shrinking\<lparr>tick := 4\<rparr>" sample_destination 2 "[[1, 2]]"] p
  have "paging_loop (sample_source_shrinking\<lparr>tick := 3\<rparr>) sample_destination ''argo_floats'' True 2 5 2 2 [[1, 2]] =
     Some (Inr 2, sample_source_shrinking\<lparr>tick := 4\<rparr>, sample_destination, [[1, 2]])"
    by simp
  with p u sample_shrinking_run_returned sample_run_returned show ?thesis by simp
qed

section \<open>Verification\<close>

text \<open>
  \<^verbatim>\<open>verify_import\<close> compares nothing: it returns the two counts of the destination.
\<close>

lemma verify_import_returns_counts:
  assumes "verify_import conn = (Inr (floats_count, profiles_count), conn')"
  shows "\<exists>cf df cp dp.
           tables (working conn) ''argo_floats'' = Some (cf, df) \<and>
           tables (working conn) ''argo_profiles'' = Some (cp, dp) \<and>
           floats_count = int (length df) \<and> profiles_count = int (length dp)"
proof -
  from assms have op: "\<not> closed conn"
    by (auto simp: verify_import_def pg_cursor_def split: if_splits)
  have na: "\<not> aborted conn"
    using assms op by (cases "aborted conn") (auto simp: verify_import_def pg_cursor_def pg_count_def)
  obtain cf df where f: "tables (working conn) ''argo_floats'' = Some (cf, df)"
    using assms op na
    by (cases "tables (working conn) ''argo_floats''") (auto simp: verify_import_def pg_cursor_def pg_count_def)
  obtain cp dp where p: "tables (working conn) ''argo_profiles'' = Some (cp, dp)"
    using assms op na f
    by (cases "tables (working conn) ''argo_profiles''") (auto simp: verify_import_def pg_cursor_def pg_count_def)
  from assms op na f p have "floats_count = int (length df) \<and> profiles_count = int (length dp)"
    by (simp add: verify_import_def pg_cursor_def pg_count_def pg_sample_def)
  with f p show ?thesis by blast
qed

lemmas verify_defs = verify_migration_def sqlite_cursor_def pg_cursor_def sqlite_count_def
  pg_count_def pg_logged_def pg_failed_def

lemma verify_tables_two:
  assumes "verify_tables sq pg [t1, t2] True [] = (Inr all_good, sq', pg', printed)"
  shows "\<exists>s1 c1 d1 s2 c2 d2.
           snapshots sq (tick sq) t1 = Some s1 \<and> tables (working pg) t1 = Some (c1, d1) \<and>
           snapshots sq (Suc (tick sq)) t2 = Some s2 \<and> tables (working pg) t2 = Some (c2, d2) \<and>
           printed = [report_line t1 (int (length s1)) (int (length d1)),
                      report_line t2 (int (length s2)) (int (length d2))] \<and>
           all_good = (length s1 = length d1 \<and> length s2 = length d2)"
proof -
  obtain s1 where s1: "snapshots sq (tick sq) t1 = Some s1"
    using assms by (cases "snapshots sq (tick sq) t1") (simp_all add: sqlite_count_def)
  have na: "\<not> aborted pg"
    using assms s1 by (cases "aborted pg") (simp_all add: sqlite_count_def pg_count_def)
  obtain c1 d1 where d1: "tables (working pg) t1 = Some (c1, d1)"
    using assms s1 na by (cases "tables (working pg) t1") (auto simp: sqlite_count_def pg_count_def)
  obtain s2 where s2: "snapshots sq (Suc (tick sq)) t2 = Some s2"
    using assms s1 na d1
    by (cases "snapshots sq (Suc (tick sq)) t2")
       (simp_all add: sqlite_count_def pg_count_def split: if_splits)
  obtain c2 d2 where d2: "tables (working pg) t2 = Some (c2, d2)"
    using assms s1 na d1 s2
    by (cases "tables (working pg) t2")
       (auto simp: sqlite_count_def pg_count_def split: if_splits)
  have "printed = [report_line t1 (int (length s1)) (int (length d1)),
                      report_line t2 (int (length s2)) (int (length d2))]"
    and "all_good = (length s1 = length d1 \<and> length s2 = length d2)"
    using assms s1 na d1 s2 d2
    by (auto simp: sqlite_count_def pg_count_def report_line_def split: if_splits)
  with s1 d1 s2 d2 show ?thesis by blast
qed

text \<open>
  C4, as the code has it. \<^verbatim>\<open>verify_migration\<close> counts \<^verbatim>\<open>argo_profiles\<close>, then
  \<^verbatim>\<open>argo_floats\<close>, on both sides. For each table it prints a match line when the
  source count equals the destination count and a mismatch line with both counts
  otherwise (2072 and 2072 match; 1300000 and 1299998 do not), and it returns one
  boolean, true exactly when both tables match. The details are printed, not returned.
\<close>

theorem verify_migration_report:
  assumes "verify_migration sqlite_conn pg_conn = (Inr all_good, sq', pg', printed)"
  shows "\<exists>sp cp dp sf cf df.
           snapshots sqlite_conn (tick sqlite_conn) ''argo_profiles'' = Some sp \<and>
           tables (working pg_conn) ''argo_profiles'' = Some (cp, dp) \<and>
           snapshots sqlite_conn (Suc (tick sqlite_conn)) ''argo_floats'' = Some sf \<and>
           tables (working pg_conn) ''argo_floats'' = Some (cf, df) \<and>
           printed = [report_line ''argo_profiles'' (int (length sp)) (int (length dp)),
                      report_line ''argo_floats'' (int (length sf)) (int (length df))] \<and>
           all_good = (length sp = length dp \<and> length sf = length df)"
proof -
  from assms have "verify_tables sqlite_conn pg_conn [''argo_profiles'', ''argo_floats''] True [] =
      (Inr all_good, sq', pg', printed)"
    by (simp add: verify_migration_def split: sum.splits)
  from verify_tables_two[OF this] show ?thesis .
qed

theorem verify_migration_report_witness:
  "verify_migration (source_with (replicate 2072 0) (replicate 1300000 0))
       (destination_with (replicate 2072 0) (replicate 1299998 0)) =
     (Inr False,
      (source_with (replicate 2072 0) (replicate 1300000 0))\<lparr>tick := 2\<rparr>,
      (destination_with (replicate 2072 0) (replicate 1299998 0))
         \<lparr>oplog := [SelectCount ''argo_profiles'', SelectCount ''argo_floats'']\<rparr>,
      [Mismatch ''argo_profiles'' 1300000 1299998, Match ''argo_floats'' 2072]) \<and>
   [Mismatch ''argo_profiles'' 1300000 1299998, Match ''argo_floats'' 2072] =
     [report_line ''argo_profiles'' 1300000 1299998, report_line ''argo_floats'' 2072 2072]"
proof -
  have run: "verify_migration (source_with (replicate 2072 0) (replicate 1300000 0))
       (destination_with (replicate 2072 0) (replicate 1299998 0)) =
     (Inr False,
      (source_with (replicate 2072 0) (replicate 1300000 0))\<lparr>tick := 2\<rparr>,
      (destination_with (replicate 2072 0) (replicate 1299998 0))
         \<lparr>oplog := [SelectCount ''argo_profiles'', SelectCount ''argo_floats'']\<rparr>,
      [Mismatch ''argo_profiles'' 1300000 1299998, Match ''argo_floats'' 2072])"
    by (simp add: verify_defs source_with_def destination_with_def db_with_def)
  from verify_migration_report[OF run] show ?thesis
    using run by (simp add: report_line_def)
qed

text \<open>
  C4 as stated asks for a detail record per table in the value returned. The value
  returned is the boolean alone: two pairs of stores whose detail records differ give
  the same value.
\<close>

theorem verify_migration_detail_counterexample:
  "fst (verify_migration (source_with [1, 2, 3, 4, 5] [10, 11, 12])
                         (destination_with [1, 2, 3, 4, 5] [10, 11, 12])) =
   fst (verify_migration (source_with [1, 2] [10, 11, 12])
                         (destination_with [1, 2] [10, 11, 12])) \<and>
   spec_detail_record (source_with [1, 2, 3, 4, 5] [10, 11, 12])
                      (destination_with [1, 2, 3, 4, 5] [10, 11, 12]) ''argo_floats'' \<noteq>
   spec_detail_record (source_with [1, 2] [10, 11, 12])
                      (destination_with [1, 2] [10, 11, 12]) ''argo_floats''"
  by (simp add: verify_defs spec_detail_record_def source_with_def destination_with_def db_with_def)

section \<open>Provisioning\<close>

lemma run_ddl_Cons_ok:
  "run_ddl perm (s # ss) d = (None, d') \<longleftrightarrow>
     perm s \<and> (\<exists>d1. apply_ddl s d = Inr d1 \<and> run_ddl perm ss d1 = (None, d'))"
  by (auto split: sum.splits)

lemma run_ddl_Nil_ok: "run_ddl perm [] d = (None, d') \<longleftrightarrow> d' = d"
  by auto

lemma apply_drop_ok:
  "apply_ddl (DropTableIfExistsCascade t) d = Inr d' \<longleftrightarrow>
     (tables d t \<noteq> None \<or> indexes d t = None) \<and> d' = drop_table t d"
  by (cases "tables d t"; cases "indexes d t") auto

lemma apply_create_table_ok:
  "apply_ddl (CreateTable t cols) d = Inr d' \<longleftrightarrow>
     tables d t = None \<and> indexes d t = None \<and> d' = d\<lparr>tables := (tables d)(t \<mapsto> (cols, []))\<rparr>"
  by (cases "tables d t"; cases "indexes d t") auto

lemma apply_create_index_ok:
  "apply_ddl (CreateIndex i t cs) d = Inr d' \<longleftrightarrow>
     (\<exists>cols rs. tables d t = Some (cols, rs) \<and> list_all (\<lambda>c. c \<in> set (map fst cols)) cs) \<and>
     tables d i = None \<and> indexes d i = None \<and>
     d' = d\<lparr>indexes := (indexes d)(i \<mapsto> (t, cs))\<rparr>"
  by (cases "tables d t"; cases "tables d i"; cases "indexes d i") (auto split: if_splits)

lemma untouched_by_drop_same: "untouched_by t (drop_table t d)"
  by (auto simp: untouched_by_def drop_table_def split: option.splits if_splits)

lemma untouched_by_drop_other: "untouched_by t d \<Longrightarrow> untouched_by t (drop_table t' d)"
  by (auto simp: untouched_by_def drop_table_def split: option.splits if_splits)

lemma drop_table_untouched: "untouched_by t d \<Longrightarrow> drop_table t d = d"
proof -
  assume u: "untouched_by t d"
  have "(tables d)(t := None) = tables d"
    using u by (auto simp: untouched_by_def)
  moreover have "(\<lambda>i. case indexes d i of None \<Rightarrow> None
                   | Some (t', cs) \<Rightarrow> if t' = t then None else Some (t', cs)) = indexes d"
    using u by (auto simp: untouched_by_def fun_eq_iff split: option.splits)
  ultimately show ?thesis by (simp add: drop_table_def)
qed

lemma drop_created_table:
  assumes "untouched_by t d"
  shows "drop_table t (d\<lparr>tables := (tables d)(t \<mapsto> v)\<rparr>) = d"
proof -
  have "((tables d)(t \<mapsto> v))(t := None) = tables d"
    using assms by (auto simp: untouched_by_def)
  moreover have "(\<lambda>i. case indexes d i of None \<Rightarrow> None
                   | Some (t', cs) \<Rightarrow> if t' = t then None else Some (t', cs)) = indexes d"
    using assms by (auto simp: untouched_by_def fun_eq_iff split: option.splits)
  ultimately show ?thesis by (simp add: drop_table_def)
qed

lemma drop_created_index:
  assumes "indexes d i = None"
  shows "drop_table t (d\<lparr>indexes := (indexes d)(i \<mapsto> (t, cs))\<rparr>) = drop_table t d"
  using assms by (auto simp: drop_table_def fun_eq_iff split: option.splits)

lemma drop_table_other_created:
  assumes "t \<noteq> t'"
  shows "drop_table t (d\<lparr>tables := (tables d)(t' \<mapsto> v)\<rparr>) =
         (drop_table t d)\<lparr>tables := (tables (drop_table t d))(t' \<mapsto> v)\<rparr>"
  using assms by (auto simp: drop_table_def fun_eq_iff)

lemmas ddl_ok = run_ddl_Cons_ok run_ddl_Nil_ok apply_drop_ok apply_create_table_ok apply_create_index_ok

lemma create_tables_statements_run:
  assumes "run_ddl perm create_tables_statements d0 = (None, d1)"
  shows "d1 = (drop_table ''argo_floats'' (drop_table ''argo_profiles'' d0))
           \<lparr>tables := (tables (drop_table ''argo_floats'' (drop_table ''argo_profiles'' d0)))
                        (''argo_floats'' \<mapsto> (argo_floats_columns, []),
                         ''argo_profiles'' \<mapsto> (argo_profiles_columns, [])),
             indexes := (indexes (drop_table ''argo_floats'' (drop_table ''argo_profiles'' d0)))
                        (''idx_profiles_float_id'' \<mapsto> (''argo_profiles'', [''float_id'']),
                         ''idx_profiles_timestamp'' \<mapsto> (''argo_profiles'', [''timestamp'']),
                         ''idx_profiles_lat'' \<mapsto> (''argo_profiles'', [''latitude'']),
                         ''idx_profiles_lon'' \<mapsto> (''argo_profiles'', [''longitude'']),
                         ''idx_profiles_location'' \<mapsto> (''argo_profiles'', [''latitude'', ''longitude'']))\<rparr>"
    and "\<forall>i\<in>set index_names. indexes (drop_table ''argo_floats'' (drop_table ''argo_profiles'' d0)) i = None"
    and "\<forall>s\<in>set create_tables_statements. perm s"
  using assms
  by (simp_all add: create_tables_statements_def ddl_ok index_names_def del: run_ddl.simps apply_ddl.simps)

lemma drops_provisioned:
  assumes "untouched_by ''argo_floats'' X" and "untouched_by ''argo_profiles'' X"
    and "\<forall>i\<in>set index_names. indexes X i = None"
  shows "drop_table ''argo_floats'' (drop_table ''argo_profiles''
           (X\<lparr>tables := (tables X)(''argo_floats'' \<mapsto> a, ''argo_profiles'' \<mapsto> b),
              indexes := (indexes X)
                        (''idx_profiles_float_id'' \<mapsto> (''argo_profiles'', c1),
                         ''idx_profiles_timestamp'' \<mapsto> (''argo_profiles'', c2),
                         ''idx_profiles_lat'' \<mapsto> (''argo_profiles'', c3),
                         ''idx_profiles_lon'' \<mapsto> (''argo_profiles'', c4),
                         ''idx_profiles_location'' \<mapsto> (''argo_profiles'', c5))\<rparr>)) = X"
proof (rule db.equality)
  show "tables (drop_table ''argo_floats'' (drop_table ''argo_profiles''
           (X\<lparr>tables := (tables X)(''argo_floats'' \<mapsto> a, ''argo_profiles'' \<mapsto> b),
              indexes := (indexes X)
                        (''idx_profiles_float_id'' \<mapsto> (''argo_profiles'', c1),
                         ''idx_profiles_timestamp'' \<mapsto> (''argo_profiles'', c2),
                         ''idx_profiles_lat'' \<mapsto> (''argo_profiles'', c3),
                         ''idx_profiles_lon'' \<mapsto> (''argo_profiles'', c4),
                         ''idx_profiles_location'' \<mapsto> (''argo_profiles'', c5))\<rparr>))) = tables X"
    using assms(1,2) by (auto simp: drop_table_def untouched_by_def fun_eq_iff)
  show "indexes (drop_table ''argo_floats'' (drop_table ''argo_profiles''
           (X\<lparr>tables := (tables X)(''argo_floats'' \<mapsto> a, ''argo_profiles'' \<mapsto> b),
              indexes := (indexes X)
                        (''idx_profiles_float_id'' \<mapsto> (''argo_profiles'', c1),
                         ''idx_profiles_timestamp'' \<mapsto> (''argo_profiles'', c2),
                         ''idx_profiles_lat'' \<mapsto> (''argo_profiles'', c3),
                         ''idx_profiles_lon'' \<mapsto> (''argo_profiles'', c4),
                         ''idx_profiles_location'' \<mapsto> (''argo_profiles'', c5))\<rparr>))) = indexes X"
  proof -
    have np: "\<And>i cs. indexes X i \<noteq> Some (''argo_profiles'', cs)"
      and nf: "\<And>i cs. indexes X i \<noteq> Some (''argo_floats'', cs)"
      using assms(1,2) unfolding untouched_by_def by blast+
    have nn: "indexes X ''idx_profiles_float_id'' = None" "indexes X ''idx_profiles_timestamp'' = None"
      "indexes X ''idx_profiles_lat'' = None" "indexes X ''idx_profiles_lon'' = None"
      "indexes X ''idx_profiles_location'' = None"
      using assms(3) by (simp_all add: index_names_def)
    show ?thesis
      by (auto simp: drop_table_def fun_eq_iff np nf nn split: option.splits)
  qed
qed (simp add: drop_table_def)

lemma tables_drop_table: "tables (drop_table t d) t' = (if t' = t then None else tables d t')"
  by (simp add: drop_table_def)

lemma run_ddl_drops:
  assumes "perm (DropTableIfExistsCascade ''argo_profiles'')" and "perm (DropTableIfExistsCascade ''argo_floats'')"
    and "tables d ''argo_profiles'' \<noteq> None \<or> indexes d ''argo_profiles'' = None"
    and "tables (drop_table ''argo_profiles'' d) ''argo_floats'' \<noteq> None \<or>
         indexes (drop_table ''argo_profiles'' d) ''argo_floats'' = None"
  shows "run_ddl perm create_tables_statements d =
         run_ddl perm (drop 2 create_tables_statements)
           (drop_table ''argo_floats'' (drop_table ''argo_profiles'' d))"
proof -
  obtain rest where cs: "create_tables_statements =
      DropTableIfExistsCascade ''argo_profiles'' # DropTableIfExistsCascade ''argo_floats'' # rest"
    by (simp add: create_tables_statements_def)
  have "run_ddl perm (DropTableIfExistsCascade ''argo_profiles'' # DropTableIfExistsCascade ''argo_floats'' # rest) d =
        run_ddl perm rest (drop_table ''argo_floats'' (drop_table ''argo_profiles'' d))"
    using assms by auto
  then show ?thesis by (simp add: cs)
qed

lemma run_ddl_after_drops:
  assumes "perm (DropTableIfExistsCascade ''argo_profiles'')" and "perm (DropTableIfExistsCascade ''argo_floats'')"
    and "tables d ''argo_profiles'' \<noteq> None" and "tables d ''argo_floats'' \<noteq> None"
  shows "run_ddl perm create_tables_statements d =
         run_ddl perm (drop 2 create_tables_statements)
           (drop_table ''argo_floats'' (drop_table ''argo_profiles'' d))"
  using run_ddl_drops[OF assms(1,2), of d] assms(3,4) by (auto simp add: tables_drop_table)

lemma create_tables_statements_idempotent:
  assumes "run_ddl perm create_tables_statements d0 = (None, d1)"
  shows "run_ddl perm create_tables_statements d1 = (None, d1)"
proof -
  let ?X = "drop_table ''argo_floats'' (drop_table ''argo_profiles'' d0)"
  note r = create_tables_statements_run[OF assms]
  have u: "untouched_by ''argo_floats'' ?X" "untouched_by ''argo_profiles'' ?X"
    by (simp_all add: untouched_by_drop_same untouched_by_drop_other)
  have x: "drop_table ''argo_floats'' (drop_table ''argo_profiles'' d1) = ?X"
    by (subst r(1)) (rule drops_provisioned[OF u r(2)])
  have p: "perm (DropTableIfExistsCascade ''argo_profiles'')" "perm (DropTableIfExistsCascade ''argo_floats'')"
    using r(3) by (simp_all add: create_tables_statements_def)
  have t0: "tables d0 ''argo_profiles'' \<noteq> None \<or> indexes d0 ''argo_profiles'' = None"
    "tables (drop_table ''argo_profiles'' d0) ''argo_floats'' \<noteq> None \<or>
     indexes (drop_table ''argo_profiles'' d0) ''argo_floats'' = None"
    using assms
    by (simp_all add: create_tables_statements_def run_ddl_Cons_ok apply_drop_ok
          del: run_ddl.simps apply_ddl.simps)
  have t1: "tables d1 ''argo_profiles'' \<noteq> None" "tables d1 ''argo_floats'' \<noteq> None"
    by (subst r(1), simp)+
  have "run_ddl perm create_tables_statements d1 =
        run_ddl perm (drop 2 create_tables_statements) ?X"
    using run_ddl_after_drops[OF p t1] x by simp
  also have "\<dots> = run_ddl perm create_tables_statements d0"
    using run_ddl_drops[OF p t0] by simp
  finally show ?thesis using assms by simp
qed

lemma create_tables_statements_state:
  assumes "run_ddl perm create_tables_statements d0 = (None, d1)"
  shows "tables d1 ''argo_floats'' = Some (argo_floats_columns, [])"
    and "tables d1 ''argo_profiles'' = Some (argo_profiles_columns, [])"
    and "{i. \<exists>cs. indexes d1 i = Some (''argo_profiles'', cs)} = set index_names"
proof -
  let ?X = "drop_table ''argo_floats'' (drop_table ''argo_profiles'' d0)"
  note r = create_tables_statements_run[OF assms]
  have u: "untouched_by ''argo_profiles'' ?X"
    by (simp add: untouched_by_drop_same untouched_by_drop_other)
  show "tables d1 ''argo_floats'' = Some (argo_floats_columns, [])"
    and "tables d1 ''argo_profiles'' = Some (argo_profiles_columns, [])"
    by (subst r(1), simp)+
  have "\<And>i cs. indexes ?X i \<noteq> Some (''argo_profiles'', cs)"
    using u unfolding untouched_by_def by blast
  then show "{i. \<exists>cs. indexes d1 i = Some (''argo_profiles'', cs)} = set index_names"
    by (subst r(1)) (auto simp: index_names_def split: if_splits)
qed

lemma pg_execute_one:
  "pg_execute c [s] =
     (if aborted c then (Inl (Psycopg2 InFailedSqlTransaction), pg_logged (Execute [s]) c)
      else if \<not> permitted c s then (Inl (Psycopg2 InsufficientPrivilege), pg_failed (Execute [s]) c)
      else case apply_ddl s (working c) of
             Inl e \<Rightarrow> (Inl (Psycopg2 e), pg_failed (Execute [s]) c)
           | Inr d \<Rightarrow> (Inr (), c\<lparr>working := d, oplog := oplog c @ [Execute [s]]\<rparr>))"
  by (simp add: pg_execute_def split: sum.splits)

lemma pg_execute_each_ok:
  "pg_execute_each c ss = (Inr (), c') \<longleftrightarrow>
     (ss = [] \<or> \<not> aborted c) \<and>
     (\<exists>d. run_ddl (permitted c) ss (working c) = (None, d) \<and>
          c' = c\<lparr>working := d, oplog := oplog c @ map (\<lambda>s. Execute [s]) ss\<rparr>)"
proof (induction ss arbitrary: c)
  case Nil
  show ?case by auto
next
  case (Cons s ss)
  show ?case
  proof (cases "aborted c")
    case True
    then show ?thesis by (simp add: pg_execute_one)
  next
    case na: False
    show ?thesis
    proof (cases "permitted c s")
      case False
      with na show ?thesis by (simp add: pg_execute_one)
    next
      case True
      show ?thesis
      proof (cases "apply_ddl s (working c)")
        case (Inl e)
        with na True show ?thesis by (simp add: pg_execute_one)
      next
        case (Inr d1)
        with na True show ?thesis
          by (simp add: pg_execute_one Cons.IH)
      qed
    qed
  qed
qed

text \<open>
  A run of statements that raises has made the calls up to the one that raised, and
  leaves the transaction aborted and empty.
\<close>

lemma pg_execute_each_error:
  "pg_execute_each c ss = (Inl e, c') \<Longrightarrow>
     \<exists>e' k. e = Psycopg2 e' \<and>
          (aborted c \<and> e' = InFailedSqlTransaction \<or>
           \<not> aborted c \<and> (\<exists>d. run_ddl (permitted c) ss (working c) = (Some e', d))) \<and>
          c' = c\<lparr>working := (if aborted c then working c else committed c), aborted := True,
                 oplog := oplog c @ map (\<lambda>s. Execute [s]) (take k ss)\<rparr>"
proof (induction ss arbitrary: c)
  case Nil
  then show ?case by simp
next
  case (Cons s ss)
  show ?case
  proof (cases "aborted c")
    case True
    then have "c\<lparr>aborted := True\<rparr> = c" by (cases c) simp
    with True Cons.prems have "e = Psycopg2 InFailedSqlTransaction"
      and "c' = c\<lparr>working := working c, aborted := True,
                   oplog := oplog c @ map (\<lambda>s. Execute [s]) (take 1 (s # ss))\<rparr>"
      by (auto simp add: pg_execute_one pg_logged_def)
    with True show ?thesis
      by (intro exI[of _ InFailedSqlTransaction] exI[of _ 1]) simp
  next
    case na: False
    show ?thesis
    proof (cases "permitted c s")
      case False
      with na Cons.prems have "e = Psycopg2 InsufficientPrivilege"
        and "c' = c\<lparr>working := committed c, aborted := True,
                     oplog := oplog c @ map (\<lambda>s. Execute [s]) (take 1 (s # ss))\<rparr>"
        by (simp_all add: pg_execute_one pg_failed_def)
      with na False show ?thesis by (intro exI[of _ InsufficientPrivilege] exI[of _ 1]) simp
    next
      case True
      show ?thesis
      proof (cases "apply_ddl s (working c)")
        case (Inl e1)
        with na True Cons.prems have "e = Psycopg2 e1"
          and "c' = c\<lparr>working := committed c, aborted := True,
                       oplog := oplog c @ map (\<lambda>s. Execute [s]) (take 1 (s # ss))\<rparr>"
          by (simp_all add: pg_execute_one pg_failed_def)
        with na True Inl show ?thesis by (intro exI[of _ e1] exI[of _ 1]) simp
      next
        case (Inr d1)
        let ?c1 = "c\<lparr>working := d1, oplog := oplog c @ [Execute [s]]\<rparr>"
        from na True Inr Cons.prems have "pg_execute_each ?c1 ss = (Inl e, c')"
          by (simp add: pg_execute_one)
        from Cons.IH[OF this] na obtain e' k d where
          "e = Psycopg2 e'" "run_ddl (permitted c) ss d1 = (Some e', d)"
          "c' = c\<lparr>working := committed c, aborted := True,
                   oplog := (oplog c @ [Execute [s]]) @ map (\<lambda>s. Execute [s]) (take k ss)\<rparr>"
          by auto
        with na True Inr show ?thesis by (intro exI[of _ e'] exI[of _ "Suc k"]) simp
      qed
    qed
  qed
qed

lemma create_tables_ok:
  "create_tables c = (Inr (), c') \<longleftrightarrow>
     \<not> closed c \<and> \<not> aborted c \<and>
     (\<exists>d. run_ddl (permitted c) create_tables_statements (working c) = (None, d) \<and>
          c' = c\<lparr>committed := d, working := d,
                 oplog := oplog c @ map (\<lambda>s. Execute [s]) create_tables_statements @ [Commit]\<rparr>)"
proof (cases "closed c")
  case True
  then show ?thesis by (simp add: create_tables_def pg_cursor_def)
next
  case False
  obtain r c1 where ex: "pg_execute_each c create_tables_statements = (r, c1)"
    by (cases "pg_execute_each c create_tables_statements")
  have ne: "create_tables_statements \<noteq> []" by (simp add: create_tables_statements_def)
  show ?thesis
  proof (cases r)
    case (Inl e)
    from pg_execute_each_error[OF ex[unfolded Inl]] obtain e' k where
      d: "aborted c \<or> (\<exists>d. run_ddl (permitted c) create_tables_statements (working c) = (Some e', d))"
      and c1: "c1 = c\<lparr>working := (if aborted c then working c else committed c), aborted := True,
                 oplog := oplog c @ map (\<lambda>s. Execute [s]) (take k create_tables_statements)\<rparr>"
      by blast
    from False ex Inl c1 have "fst (create_tables c) = Inl e"
      by (simp add: create_tables_def pg_cursor_def create_tables_except_def pg_rollback_def)
    then have l: "create_tables c \<noteq> (Inr (), c')" by auto
    from d have "\<not> (\<not> aborted c \<and>
        (\<exists>d. run_ddl (permitted c) create_tables_statements (working c) = (None, d) \<and>
          c' = c\<lparr>committed := d, working := d,
                 oplog := oplog c @ map (\<lambda>s. Execute [s]) create_tables_statements @ [Commit]\<rparr>))"
      by auto
    with l show ?thesis by blast
  next
    case (Inr v)
    from ex[unfolded Inr, simplified] ne obtain d where
      d: "run_ddl (permitted c) create_tables_statements (working c) = (None, d)"
      and na: "\<not> aborted c"
      and c1: "c1 = c\<lparr>working := d, oplog := oplog c @ map (\<lambda>s. Execute [s]) create_tables_statements\<rparr>"
      unfolding pg_execute_each_ok by blast
    from False ex Inr c1 na have "create_tables c =
        (Inr (), c\<lparr>committed := d, working := d,
                 oplog := oplog c @ map (\<lambda>s. Execute [s]) create_tables_statements @ [Commit]\<rparr>)"
      by (simp add: create_tables_def pg_cursor_def pg_commit_def)
    with False d na show ?thesis by auto
  qed
qed

text \<open>
  When \<^verbatim>\<open>create_tables\<close> raises on an open connection, its last call is the rollback:
  the transaction is over and nothing of it is left.
\<close>

lemma create_tables_error:
  assumes "create_tables c = (Inl e, c')"
  shows "(closed c \<and> e = Psycopg2 InterfaceError \<and> c' = c) \<or>
         (\<not> closed c \<and>
          (\<exists>e' k. e = Psycopg2 e' \<and>
             (aborted c \<and> e' = InFailedSqlTransaction \<or>
              \<not> aborted c \<and>
              (\<exists>d. run_ddl (permitted c) create_tables_statements (working c) = (Some e', d))) \<and>
             c' = c\<lparr>working := committed c, aborted := False,
                    oplog := oplog c @ map (\<lambda>s. Execute [s]) (take k create_tables_statements) @ [Rollback]\<rparr>))"
proof (cases "closed c")
  case True
  with assms show ?thesis by (simp add: create_tables_def pg_cursor_def)
next
  case False
  obtain r c1 where ex: "pg_execute_each c create_tables_statements = (r, c1)"
    by (cases "pg_execute_each c create_tables_statements")
  have ne: "create_tables_statements \<noteq> []" by (simp add: create_tables_statements_def)
  show ?thesis
  proof (cases r)
    case (Inl e1)
    from pg_execute_each_error[OF ex[unfolded Inl]] obtain e' k where
      e1: "e1 = Psycopg2 e'"
      and d: "aborted c \<and> e' = InFailedSqlTransaction \<or>
           \<not> aborted c \<and> (\<exists>d. run_ddl (permitted c) create_tables_statements (working c) = (Some e', d))"
      and c1: "c1 = c\<lparr>working := (if aborted c then working c else committed c), aborted := True,
                 oplog := oplog c @ map (\<lambda>s. Execute [s]) (take k create_tables_statements)\<rparr>"
      by blast
    from assms False ex Inl c1 have "e = e1"
      and "c' = c\<lparr>working := committed c, aborted := False,
                    oplog := oplog c @ map (\<lambda>s. Execute [s]) (take k create_tables_statements) @ [Rollback]\<rparr>"
      by (simp_all add: create_tables_def pg_cursor_def create_tables_except_def pg_rollback_def)
    with False e1 d show ?thesis by blast
  next
    case (Inr v)
    from ex[unfolded Inr, simplified] ne obtain d where na: "\<not> aborted c" and
      c1: "c1 = c\<lparr>working := d, oplog := oplog c @ map (\<lambda>s. Execute [s]) create_tables_statements\<rparr>"
      unfolding pg_execute_each_ok by blast
    with assms False ex Inr show ?thesis
      by (simp add: create_tables_def pg_cursor_def pg_commit_def)
  qed
qed

text \<open>
  When \<^verbatim>\<open>create_schema\<close> raises on an open connection, the \<^verbatim>\<open>execute\<close> is the one
  call it has made: nothing is committed, and nothing is rolled back either.
\<close>

lemma create_schema_error:
  assumes "create_schema c (Some schema_sql) = (Inl e, c')" and "\<not> closed c"
  shows "(\<exists>e'. e = Psycopg2 e') \<and> committed c' = committed c \<and> closed c' = closed c \<and>
         oplog c' = oplog c @ [Execute schema_sql]"
proof -
  obtain r c1 where ex: "pg_execute c schema_sql = (r, c1)"
    by (cases "pg_execute c schema_sql")
  have c1: "committed c1 = committed c \<and> closed c1 = closed c \<and>
            oplog c1 = oplog c @ [Execute schema_sql] \<and> (\<forall>e. r = Inl e \<longrightarrow> (\<exists>e'. e = Psycopg2 e'))"
    using ex by (auto simp: pg_execute_def split: if_splits prod.splits option.splits)
  show ?thesis
  proof (cases r)
    case (Inl e1)
    with assms ex have "e = e1" "c' = c1" by (simp_all add: create_schema_def pg_cursor_def)
    with c1 Inl show ?thesis by simp
  next
    case (Inr u)
    with assms ex c1 show ?thesis
      by (simp add: create_schema_def pg_cursor_def pg_commit_def split: if_splits)
  qed
qed

lemmas provision_defs = create_tables_def create_tables_except_def create_schema_def pg_cursor_def
  pg_execute_def pg_commit_def pg_rollback_def pg_logged_def pg_failed_def
  create_tables_statements_def drop_table_def argo_floats_columns_def argo_profiles_columns_def

lemma sample_create_tables_succeeds:
  "fst (create_tables (destination_with [1, 2] [10])) = Inr ()"
  by (simp add: provision_defs destination_with_def db_with_def)

text \<open>
  C5. A failing statement makes \<^verbatim>\<open>create_tables\<close> roll back before it re-raises: on
  a destination where the name of its third index is taken it raises the error of the
  database, its last call on the connection is the rollback, and the transaction is
  over. \<^verbatim>\<open>create_schema\<close>, the provisioner of \<^verbatim>\<open>bulk_import_supabase.py\<close>, has no
  handler. On a destination that holds \<^verbatim>\<open>argo_profiles\<close> already, with a schema of
  CREATE statements, its second statement fails: it raises the error of the database,
  the \<^verbatim>\<open>execute\<close> is the one call it has made, and the connection is left in the
  failed transaction, which no rollback ends. Neither commits anything.
\<close>

theorem create_schema_does_not_roll_back:
  "fst (create_schema sample_destination_profiles_only (Some sample_schema)) =
     Inl (Psycopg2 (DuplicateTable ''argo_profiles'')) \<and>
   oplog (snd (create_schema sample_destination_profiles_only (Some sample_schema))) =
     [Execute sample_schema] \<and>
   aborted (snd (create_schema sample_destination_profiles_only (Some sample_schema))) \<and>
   committed (snd (create_schema sample_destination_profiles_only (Some sample_schema))) =
     committed sample_destination_profiles_only \<and>
   fst (create_tables sample_destination_index_clash) =
     Inl (Psycopg2 (DuplicateTable ''idx_profiles_lat'')) \<and>
   last (oplog (snd (create_tables sample_destination_index_clash))) = Rollback \<and>
   \<not> aborted (snd (create_tables sample_destination_index_clash)) \<and>
   committed (snd (create_tables sample_destination_index_clash)) =
     committed sample_destination_index_clash"
proof -
  have "fst (create_schema sample_destination_profiles_only (Some sample_schema)) =
     Inl (Psycopg2 (DuplicateTable ''argo_profiles''))"
    and "oplog (snd (create_schema sample_destination_profiles_only (Some sample_schema))) =
     [Execute sample_schema]"
    and "aborted (snd (create_schema sample_destination_profiles_only (Some sample_schema)))"
    and "committed (snd (create_schema sample_destination_profiles_only (Some sample_schema))) =
     committed sample_destination_profiles_only"
    by (simp_all add: provision_defs sample_destination_profiles_only_def sample_schema_def)
  moreover have "fst (create_tables sample_destination_index_clash) =
     Inl (Psycopg2 (DuplicateTable ''idx_profiles_lat''))"
    and "last (oplog (snd (create_tables sample_destination_index_clash))) = Rollback"
    and "\<not> aborted (snd (create_tables sample_destination_index_clash))"
    and "committed (snd (create_tables sample_destination_index_clash)) =
     committed sample_destination_index_clash"
    by (simp_all add: provision_defs sample_destination_index_clash_def)
  ultimately show ?thesis by simp
qed

text \<open>
  C6. When a run of \<^verbatim>\<open>create_tables\<close> succeeds, a second run right after it succeeds
  too and leaves the same state: both tables are dropped at the start of each run, with
  the indexes on them, so that each run ends with the two tables empty, with their
  declared columns, and with exactly the five indexes on \<^verbatim>\<open>argo_profiles\<close>, all
  committed.
\<close>

theorem create_tables_idempotent:
  assumes "create_tables pg_conn = (Inr (), c1)"
  shows "\<exists>c2. create_tables c1 = (Inr (), c2) \<and>
           committed c2 = committed c1 \<and> working c2 = working c1 \<and>
           working c1 = committed c1 \<and>
           tables (committed c1) ''argo_floats'' = Some (argo_floats_columns, []) \<and>
           tables (committed c1) ''argo_profiles'' = Some (argo_profiles_columns, []) \<and>
           {i. \<exists>cs. indexes (committed c1) i = Some (''argo_profiles'', cs)} =
             {''idx_profiles_float_id'', ''idx_profiles_timestamp'', ''idx_profiles_lat'',
              ''idx_profiles_lon'', ''idx_profiles_location''}"
proof -
  from assms obtain d1 where op: "\<not> closed pg_conn" and na: "\<not> aborted pg_conn"
    and r: "run_ddl (permitted pg_conn) create_tables_statements (working pg_conn) = (None, d1)"
    and c1: "c1 = pg_conn\<lparr>committed := d1, working := d1,
                 oplog := oplog pg_conn @ map (\<lambda>s. Execute [s]) create_tables_statements @ [Commit]\<rparr>"
    unfolding create_tables_ok by blast
  have r2: "run_ddl (permitted c1) create_tables_statements (working c1) = (None, d1)"
    using create_tables_statements_idempotent[OF r] c1 by simp
  let ?c2 = "c1\<lparr>committed := d1, working := d1,
                 oplog := oplog c1 @ map (\<lambda>s. Execute [s]) create_tables_statements @ [Commit]\<rparr>"
  have "create_tables c1 = (Inr (), ?c2)"
    unfolding create_tables_ok using r2 op na c1 by simp
  moreover have "committed ?c2 = committed c1" "working ?c2 = working c1" "working c1 = committed c1"
    using c1 by simp_all
  moreover note create_tables_statements_state[OF r]
  moreover have "committed c1 = d1" using c1 by simp
  ultimately show ?thesis by (simp add: index_names_def)
qed

theorem create_tables_idempotent_witness:
  "fst (create_tables (destination_with [1, 2] [10])) = Inr () \<and>
   (\<exists>c2. create_tables (snd (create_tables (destination_with [1, 2] [10]))) = (Inr (), c2) \<and>
      committed c2 = committed (snd (create_tables (destination_with [1, 2] [10]))) \<and>
      tables (committed c2) ''argo_floats'' = Some (argo_floats_columns, []))"
proof -
  have "create_tables (destination_with [1, 2] [10]) =
      (Inr (), snd (create_tables (destination_with [1, 2] [10])))"
    using sample_create_tables_succeeds by (metis prod.collapse)
  from create_tables_idempotent[OF this] obtain c2 where
    "create_tables (snd (create_tables (destination_with [1, 2] [10]))) = (Inr (), c2)"
    and "committed c2 = committed (snd (create_tables (destination_with [1, 2] [10])))"
    and "tables (committed (snd (create_tables (destination_with [1, 2] [10])))) ''argo_floats'' =
           Some (argo_floats_columns, [])"
    by blast
  then have "create_tables (snd (create_tables (destination_with [1, 2] [10]))) = (Inr (), c2) \<and>
      committed c2 = committed (snd (create_tables (destination_with [1, 2] [10]))) \<and>
      tables (committed c2) ''argo_floats'' = Some (argo_floats_columns, [])"
    by simp
  with sample_create_tables_succeeds show ?thesis by blast
qed

section \<open>Streaming loads\<close>

lemma copy_rows_ok:
  "copy_rows parse acc cur ls = (None, cur') \<Longrightarrow>
     \<exists>rows. map parse (data_lines parse ls) = map Row rows \<and> cur' = cur @ rows"
proof (induction ls arbitrary: cur)
  case Nil
  then show ?case by (simp add: data_lines_def)
next
  case (Cons l ls)
  show ?case
  proof (cases "parse l")
    case (Row r)
    with Cons.prems have a: "acc cur r"
      and rest: "copy_rows parse acc (cur @ [r]) ls = (None, cur')"
      by (auto split: if_splits)
    from Cons.IH[OF rest] obtain rows where
      "map parse (data_lines parse ls) = map Row rows" "cur' = (cur @ [r]) @ rows"
      by blast
    with Row show ?thesis by (intro exI[of _ "r # rows"]) (simp add: data_lines_def)
  next
    case Malformed
    with Cons.prems show ?thesis by simp
  next
    case EndOfData
    with Cons.prems show ?thesis by (simp add: data_lines_def)
  qed
qed

lemma pg_copy_expert_ok:
  assumes "pg_copy_expert c t header lines = (Inr u, c')"
  shows "\<exists>cols cur rows.
           tables (working c) t = Some (cols, cur) \<and> \<not> aborted c \<and>
           map (parse_line c t) (data_lines (parse_line c t) (if header then drop 1 lines else lines)) =
             map Row rows \<and>
           c' = c\<lparr>working := append_rows t rows (working c), oplog := oplog c @ [CopyExpert t lines]\<rparr>"
proof -
  from assms have na: "\<not> aborted c"
    by (cases "aborted c") (simp_all add: pg_copy_expert_def)
  from assms na obtain cols cur where tb: "tables (working c) t = Some (cols, cur)"
    by (cases "tables (working c) t") (auto simp: pg_copy_expert_def)
  obtain eo cur' where cr:
    "copy_rows (parse_line c t) (accepts c t) cur (if header then drop 1 lines else lines) = (eo, cur')"
    by (cases "copy_rows (parse_line c t) (accepts c t) cur (if header then drop 1 lines else lines)")
  with assms na tb have eo: "eo = None"
    and c': "c' = c\<lparr>working := set_rows t cols cur' (working c), oplog := oplog c @ [CopyExpert t lines]\<rparr>"
    by (cases eo; simp add: pg_copy_expert_def)+
  from copy_rows_ok[OF cr[unfolded eo]] obtain rows where
    rows: "map (parse_line c t) (data_lines (parse_line c t) (if header then drop 1 lines else lines)) =
             map Row rows"
    and cur': "cur' = cur @ rows" by blast
  from c' cur' tb have "c' = c\<lparr>working := append_rows t rows (working c), oplog := oplog c @ [CopyExpert t lines]\<rparr>"
    by (simp add: append_rows_set_rows)
  with tb na rows show ?thesis by blast
qed

lemma pg_copy_expert_error:
  assumes "pg_copy_expert c t header lines = (Inl e, c')"
  shows "(\<exists>e'. e = Psycopg2 e') \<and> committed c' = committed c \<and> closed c' = closed c \<and>
         oplog c' = oplog c @ [CopyExpert t lines]"
  using assms
  by (auto simp: pg_copy_expert_def split: option.splits prod.splits if_splits)

lemma pg_count_exists:
  "tables (working c) t = Some (cols, rs) \<Longrightarrow> \<not> aborted c \<Longrightarrow>
     pg_count c t = (Inr (int (length rs)), c\<lparr>oplog := oplog c @ [SelectCount t]\<rparr>)"
  by (simp add: pg_count_def pg_logged_def)

lemma append_rows_exists:
  "tables d t = Some (cols, cur) \<Longrightarrow> tables (append_rows t rows d) t = Some (cols, cur @ rows)"
  by (simp add: append_rows_tables)

lemma import_table_result:
  assumes "import_table t conn csv_file = (r, conn')"
  shows "(r = Inr () \<and>
          (\<exists>header rest rows.
             csv_file = Some (header # rest) \<and>
             map (parse_line conn t) (data_lines (parse_line conn t) rest) = map Row rows \<and>
             committed conn' = append_rows t rows (working conn) \<and>
             working conn' = committed conn' \<and> \<not> closed conn' \<and>
             oplog conn' = oplog conn @ [CopyExpert t rest, Commit, SelectCount t])) \<or>
         ((\<exists>e. r = Inl e) \<and> committed conn' = committed conn \<and> closed conn' = closed conn \<and>
          (\<exists>ops. oplog conn' = oplog conn @ ops \<and> (\<forall>op\<in>set ops. \<exists>ls. op = CopyExpert t ls)))"
proof (cases csv_file)
  case None
  with assms have "(\<exists>e. r = Inl e) \<and> committed conn' = committed conn \<and> closed conn' = closed conn \<and>
      oplog conn' = oplog conn @ []"
    by (auto simp: import_table_def)
  then show ?thesis by (intro disjI2) (metis empty_iff list.set(1))
next
  case (Some f)
  show ?thesis
  proof (cases "closed conn")
    case True
    with assms Some have "(\<exists>e. r = Inl e) \<and> committed conn' = committed conn \<and> closed conn' = closed conn \<and>
        oplog conn' = oplog conn @ []"
      by (auto simp: import_table_def pg_cursor_def)
    then show ?thesis by (intro disjI2) (metis empty_iff list.set(1))
  next
    case False
    show ?thesis
    proof (cases f)
      case Nil
      with assms Some False have "(\<exists>e. r = Inl e) \<and> committed conn' = committed conn \<and> closed conn' = closed conn \<and>
          oplog conn' = oplog conn @ []"
        by (auto simp: import_table_def pg_cursor_def)
      then show ?thesis by (intro disjI2) (metis empty_iff list.set(1))
    next
      case (Cons header rest)
      obtain r1 c1 where cp: "pg_copy_expert conn t False rest = (r1, c1)"
        by (cases "pg_copy_expert conn t False rest")
      show ?thesis
      proof (cases r1)
        case (Inl e)
        from pg_copy_expert_error[OF cp[unfolded Inl]]
        have "committed c1 = committed conn" "closed c1 = closed conn"
          "oplog c1 = oplog conn @ [CopyExpert t rest]" by simp_all
        moreover from assms Some False Cons cp Inl have "r = Inl e" "conn' = c1"
          by (simp_all add: import_table_def pg_cursor_def)
        ultimately have "(\<exists>e. r = Inl e) \<and> committed conn' = committed conn \<and> closed conn' = closed conn \<and>
          oplog conn' = oplog conn @ [CopyExpert t rest] \<and>
          (\<forall>op\<in>set [CopyExpert t rest]. \<exists>ls. op = CopyExpert t ls)"
          by simp
        then show ?thesis by (intro disjI2) blast
      next
        case (Inr u)
        from pg_copy_expert_ok[OF cp[unfolded Inr]] obtain cols cur rows where
          tb: "tables (working conn) t = Some (cols, cur)" and na: "\<not> aborted conn"
          and rows: "map (parse_line conn t) (data_lines (parse_line conn t) rest) = map Row rows"
          and c1: "c1 = conn\<lparr>working := append_rows t rows (working conn), oplog := oplog conn @ [CopyExpert t rest]\<rparr>"
          by auto
        let ?c2 = "c1\<lparr>committed := working c1, oplog := oplog c1 @ [Commit]\<rparr>"
        have cm: "pg_commit c1 = (Inr (), ?c2)" using c1 False na by (simp add: pg_commit_def)
        have "tables (working ?c2) t = Some (cols, cur @ rows)" and "\<not> aborted ?c2"
          using c1 tb na by (simp_all add: append_rows_exists)
        from pg_count_exists[OF this]
        have ct: "pg_count ?c2 t = (Inr (int (length (cur @ rows))), ?c2\<lparr>oplog := oplog ?c2 @ [SelectCount t]\<rparr>)" .
        from assms Some False Cons cp Inr cm ct
        have "r = Inr ()" and "conn' = ?c2\<lparr>oplog := oplog ?c2 @ [SelectCount t]\<rparr>"
          by (simp_all add: import_table_def pg_cursor_def)
        with c1 False rows Some Cons show ?thesis by (intro disjI1) auto
      qed
    qed
  qed
qed


lemmas import_defs = import_argo_floats_def import_argo_profiles_def import_table_def
  import_csv_copy_def pg_cursor_def pg_copy_expert_def pg_commit_def pg_count_def set_rows_def
  pg_logged_def pg_failed_def sample_parse_line_def end_of_data_marker_def







section \<open>Whole runs\<close>

lemma phases_append [simp]: "phases v (xs @ ys) = phases v xs @ phases v ys"
  by (simp add: phases_def map_filter_def)

lemma phases_Nil [simp]: "phases v [] = []"
  by (simp add: phases_def map_filter_def)

lemma in_phase_set: "in_phase v k ops \<Longrightarrow> x \<in> set (phases v ops) \<Longrightarrow> x = k"
  by (auto simp: in_phase_def phases_def map_filter_def)

lemma in_phase_Nil [simp]: "in_phase v k []"
  by (simp add: in_phase_def)

lemma in_phase_append [simp]: "in_phase v k (xs @ ys) \<longleftrightarrow> in_phase v k xs \<and> in_phase v k ys"
  by (auto simp: in_phase_def)

lemma sorted_constant: "(\<And>x. x \<in> set xs \<Longrightarrow> x = k) \<Longrightarrow> sorted xs"
  by (induction xs) auto

lemma sorted_in_phase: "in_phase v k ops \<Longrightarrow> sorted (phases v ops)"
  by (rule sorted_constant[of _ k]) (erule (1) in_phase_set)

lemma sorted_phases:
  assumes "in_phase v 0 a" and "in_phase v 1 b" and "in_phase v 2 c" and "in_phase v 3 d"
    and "in_phase v 4 e"
  shows "sorted (phases v (a @ b @ c @ d @ e))"
proof -
  have "\<And>x. x \<in> set (phases v a) \<Longrightarrow> x = 0" "\<And>x. x \<in> set (phases v b) \<Longrightarrow> x = 1"
    "\<And>x. x \<in> set (phases v c) \<Longrightarrow> x = 2" "\<And>x. x \<in> set (phases v d) \<Longrightarrow> x = 3"
    "\<And>x. x \<in> set (phases v e) \<Longrightarrow> x = 4"
    using assms by (blast dest: in_phase_set)+
  then show ?thesis
    using assms by (fastforce simp: sorted_append sorted_in_phase)
qed

lemma in_phase_batch_ops:
  "in_phase v (if t = ''argo_floats'' then 1 else 2) (batch_ops t bs)"
  by (auto simp: in_phase_def batch_ops_def)

lemma in_phase_executes: "in_phase v 0 (map (\<lambda>s. Execute [s]) ss)"
  by (auto simp: in_phase_def)

lemma create_tables_log:
  assumes "create_tables c = (r, c')"
  shows "\<exists>a. oplog c' = oplog c @ a \<and> in_phase v 0 a \<and>
           (r = Inr () \<longrightarrow>
              a = map (\<lambda>s. Execute [s]) create_tables_statements @ [Commit] \<and>
              working c' = committed c' \<and> \<not> closed c')"
proof (cases r)
  case (Inr u)
  with assms have "create_tables c = (Inr (), c')" by simp
  then obtain d where "\<not> closed c"
    and "c' = c\<lparr>committed := d, working := d,
                 oplog := oplog c @ map (\<lambda>s. Execute [s]) create_tables_statements @ [Commit]\<rparr>"
    unfolding create_tables_ok by blast
  then have "oplog c' = oplog c @ (map (\<lambda>s. Execute [s]) create_tables_statements @ [Commit])"
    and "working c' = committed c'" and "\<not> closed c'" by simp_all
  moreover have "in_phase v 0 (map (\<lambda>s. Execute [s]) create_tables_statements @ [Commit])"
    by (simp add: in_phase_executes) (simp add: in_phase_def)
  ultimately show ?thesis by blast
next
  case (Inl e)
  from create_tables_error[OF assms[unfolded Inl]] show ?thesis
  proof
    assume "closed c \<and> e = Psycopg2 InterfaceError \<and> c' = c"
    then have "oplog c' = oplog c @ []" by simp
    with Inl show ?thesis by (intro exI[of _ "[]"]) simp
  next
    assume "\<not> closed c \<and>
          (\<exists>e' k. e = Psycopg2 e' \<and>
             (aborted c \<and> e' = InFailedSqlTransaction \<or>
              \<not> aborted c \<and>
              (\<exists>d. run_ddl (permitted c) create_tables_statements (working c) = (Some e', d))) \<and>
             c' = c\<lparr>working := committed c, aborted := False,
                    oplog := oplog c @ map (\<lambda>s. Execute [s]) (take k create_tables_statements) @ [Rollback]\<rparr>)"
    then obtain k where
      "oplog c' = oplog c @ (map (\<lambda>s. Execute [s]) (take k create_tables_statements) @ [Rollback])"
      by auto
    moreover have "in_phase v 0 (map (\<lambda>s. Execute [s]) (take k create_tables_statements) @ [Rollback])"
      by (simp add: in_phase_executes) (simp add: in_phase_def)
    ultimately show ?thesis using Inl by blast
  qed
qed

lemma migrate_data_log:
  assumes "migrate_data sq pg t B = Some (r, sq', pg', bs)" and "working pg = committed pg"
  shows "\<exists>b. oplog pg' = oplog pg @ b \<and> in_phase v (if t = ''argo_floats'' then 1 else 2) b \<and>
           (\<forall>n. r = Inr n \<longrightarrow> b = batch_ops t bs \<and> working pg' = committed pg')"
proof -
  from migrate_data_loop[OF assms(1)] show ?thesis
  proof
    assume "bs = [] \<and> pg' = pg \<and> (\<exists>e. r = Inl e)"
    then show ?thesis by (intro exI[of _ "[]"]) auto
  next
    assume a: "\<not> sqlite_closed sq \<and> \<not> closed pg \<and>
          (\<exists>rs. snapshots sq (tick sq) t = Some rs \<and>
           paging_loop (sq\<lparr>tick := Suc (Suc (tick sq))\<rparr>) pg t
              (snapshots sq (Suc (tick sq)) t \<noteq> None) B
              (int (length rs)) 0 0 [] = Some (r, sq', pg', bs))"
    then have op: "\<not> closed pg" by simp
    from a obtain tot where loop:
      "paging_loop (sq\<lparr>tick := Suc (Suc (tick sq))\<rparr>) pg t
              (snapshots sq (Suc (tick sq)) t \<noteq> None) B tot 0 0 [] = Some (r, sq', pg', bs)"
      by blast
    from paging_loop_committed[OF loop op assms(2)]
    obtain new where n: "bs = [] @ new"
      and o: "oplog pg' =
             oplog pg @ batch_ops t (if load_failed r then butlast new else new)
                      @ (if load_failed r then [ExecuteMany t (last new)] else [])"
      and w: "\<not> load_failed r \<longrightarrow> working pg' = committed pg'"
      by blast
    let ?b = "batch_ops t (if load_failed r then butlast new else new)
                      @ (if load_failed r then [ExecuteMany t (last new)] else [])"
    have "in_phase v (if t = ''argo_floats'' then 1 else 2) [ExecuteMany t (last new)]"
      by (simp add: in_phase_def)
    then have "in_phase v (if t = ''argo_floats'' then 1 else 2) ?b"
      by (cases "load_failed r") (simp_all only: in_phase_append in_phase_batch_ops in_phase_Nil if_True if_False simp_thms)
    moreover have "\<forall>n. r = Inr n \<longrightarrow> ?b = batch_ops t bs \<and> working pg' = committed pg'"
      using n w by auto
    ultimately show ?thesis using o by blast
  qed
qed

lemma verify_tables_log:
  "verify_tables sq pg ts g printed = (r, sq', pg', printed') \<Longrightarrow>
     \<exists>k. oplog pg' = oplog pg @ map SelectCount (take k ts) \<and>
         (\<forall>b. r = Inr b \<longrightarrow> k = length ts)"
proof (induction ts arbitrary: sq pg g printed)
  case Nil
  then show ?case by simp
next
  case (Cons t ts)
  obtain r1 sq1 where sc: "sqlite_count sq t = (r1, sq1)" by (cases "sqlite_count sq t")
  show ?case
  proof (cases r1)
    case (Inl e)
    with Cons.prems sc have "r = Inl e" "pg' = pg" by simp_all
    then show ?thesis by (intro exI[of _ 0]) simp
  next
    case (Inr n)
    obtain r2 pg1 where pc: "pg_count pg t = (r2, pg1)" by (cases "pg_count pg t")
    then have o1: "oplog pg1 = oplog pg @ [SelectCount t]"
      by (auto simp: pg_count_def split: option.splits if_splits)
    show ?thesis
    proof (cases r2)
      case (Inl e)
      with Cons.prems sc Inr pc have "r = Inl e" "pg' = pg1" by simp_all
      with o1 show ?thesis by (intro exI[of _ 1]) simp
    next
      case r2: (Inr m)
      from Cons.prems sc Inr pc r2 obtain g' printed1 where
        "verify_tables sq1 pg1 ts g' printed1 = (r, sq', pg', printed')"
        by (auto split: if_splits)
      from Cons.IH[OF this] obtain k where
        "oplog pg' = oplog pg1 @ map SelectCount (take k ts)" "\<forall>b. r = Inr b \<longrightarrow> k = length ts"
        by blast
      with o1 show ?thesis by (intro exI[of _ "Suc k"]) simp
    qed
  qed
qed

lemma in_phase_counts: "in_phase True 3 (map SelectCount ts)"
  by (auto simp: in_phase_def)

lemma verify_migration_log:
  assumes "verify_migration sq pg = (r, sq', pg', printed)"
  shows "\<exists>d. oplog pg' = oplog pg @ d \<and> in_phase True 3 d \<and>
           (\<forall>g. r = Inr g \<longrightarrow> d = [SelectCount ''argo_profiles'', SelectCount ''argo_floats''])"
proof (cases "sqlite_closed sq \<or> closed pg")
  case True
  with assms have "pg' = pg" "\<exists>e. r = Inl e"
    by (auto simp: verify_migration_def sqlite_cursor_def pg_cursor_def split: if_splits)
  then show ?thesis by (intro exI[of _ "[]"]) auto
next
  case False
  with assms have "verify_tables sq pg [''argo_profiles'', ''argo_floats''] True [] = (r, sq', pg', printed)"
    by (simp add: verify_migration_def sqlite_cursor_def pg_cursor_def)
  from verify_tables_log[OF this] obtain k where
    o: "oplog pg' = oplog pg @ map SelectCount (take k [''argo_profiles'', ''argo_floats''])"
    and k: "\<forall>b. r = Inr b \<longrightarrow> k = length [''argo_profiles'', ''argo_floats'']" by blast
  have "in_phase True 3 (map SelectCount (take k [''argo_profiles'', ''argo_floats'']))"
    by (rule in_phase_counts)
  moreover have "\<forall>g. r = Inr g \<longrightarrow>
      map SelectCount (take k [''argo_profiles'', ''argo_floats'']) =
        [SelectCount ''argo_profiles'', SelectCount ''argo_floats'']"
    using k by auto
  ultimately show ?thesis using o by blast
qed

lemma main_try_log:
  assumes "main_try sq pg = Some (r, sq', pg')"
  shows "\<exists>a b c d. oplog pg' = oplog pg @ a @ b @ c @ d \<and>
           in_phase True 0 a \<and> in_phase True 1 b \<and> in_phase True 2 c \<and> in_phase True 3 d \<and>
           (\<forall>g. r = Inr g \<longrightarrow>
              a = map (\<lambda>s. Execute [s]) create_tables_statements @ [Commit] \<and>
              (\<exists>bs1. b = batch_ops ''argo_floats'' bs1) \<and>
              (\<exists>bs2. c = batch_ops ''argo_profiles'' bs2) \<and>
              d = [SelectCount ''argo_profiles'', SelectCount ''argo_floats''])"
proof -
  obtain r0 pg1 where ct: "create_tables pg = (r0, pg1)" by (cases "create_tables pg")
  from create_tables_log[OF ct, of True] obtain a where
    a: "oplog pg1 = oplog pg @ a" "in_phase True 0 a"
    and a_ok: "r0 = Inr () \<longrightarrow>
              a = map (\<lambda>s. Execute [s]) create_tables_statements @ [Commit] \<and>
              working pg1 = committed pg1 \<and> \<not> closed pg1"
    by blast
  show ?thesis
  proof (cases r0)
    case (Inl e)
    with assms ct have "r = Inl e" "pg' = pg1" by (simp_all add: main_try_def)
    with a show ?thesis by (intro exI[of _ a] exI[of _ "[]"]) simp
  next
    case (Inr u)
    with a_ok have a_eq: "a = map (\<lambda>s. Execute [s]) create_tables_statements @ [Commit]"
      and w1: "working pg1 = committed pg1" by simp_all
    from assms ct Inr obtain r1 sq1 pg2 bs1 where
      m1: "migrate_data sq pg1 ''argo_floats'' 2000 = Some (r1, sq1, pg2, bs1)"
      by (cases "migrate_data sq pg1 ''argo_floats'' 2000") (auto simp: main_try_def)
    from migrate_data_log[OF m1 w1, of True] obtain b where
      b: "oplog pg2 = oplog pg1 @ b" "in_phase True 1 b"
      and b_ok: "\<forall>n. r1 = Inr n \<longrightarrow> b = batch_ops ''argo_floats'' bs1 \<and> working pg2 = committed pg2"
      by auto
    show ?thesis
    proof (cases r1)
      case (Inl e)
      with assms ct Inr m1 have "r = Inl e" "pg' = pg2" by (simp_all add: main_try_def)
      with a b show ?thesis by (intro exI[of _ a] exI[of _ b] exI[of _ "[]"]) simp
    next
      case r1: (Inr n1)
      with b_ok have b_eq: "b = batch_ops ''argo_floats'' bs1" and w2: "working pg2 = committed pg2"
        by simp_all
      from assms ct Inr m1 r1 obtain r2 sq2 pg3 bs2 where
        m2: "migrate_data sq1 pg2 ''argo_profiles'' 5000 = Some (r2, sq2, pg3, bs2)"
        by (cases "migrate_data sq1 pg2 ''argo_profiles'' 5000") (auto simp: main_try_def)
      from migrate_data_log[OF m2 w2, of True] obtain c where
        c: "oplog pg3 = oplog pg2 @ c" "in_phase True 2 c"
        and c_ok: "\<forall>n. r2 = Inr n \<longrightarrow> c = batch_ops ''argo_profiles'' bs2 \<and> working pg3 = committed pg3"
        by auto
      show ?thesis
      proof (cases r2)
        case (Inl e)
        with assms ct Inr m1 r1 m2 have "r = Inl e" "pg' = pg3" by (simp_all add: main_try_def)
        with a b c show ?thesis by (intro exI[of _ a] exI[of _ b] exI[of _ c] exI[of _ "[]"]) simp
      next
        case r2: (Inr n2)
        with c_ok have c_eq: "c = batch_ops ''argo_profiles'' bs2" by simp
        obtain r3 sq3 pg4 printed where v: "verify_migration sq2 pg3 = (r3, sq3, pg4, printed)"
          by (cases "verify_migration sq2 pg3")
        from verify_migration_log[OF v] obtain d where
          d: "oplog pg4 = oplog pg3 @ d" "in_phase True 3 d"
          and d_ok: "\<forall>g. r3 = Inr g \<longrightarrow> d = [SelectCount ''argo_profiles'', SelectCount ''argo_floats'']"
          by blast
        from assms ct Inr m1 r1 m2 r2 v have "r = r3" "pg' = pg4" by (simp_all add: main_try_def)
        with a b c d d_ok a_eq b_eq c_eq show ?thesis
          by (intro exI[of _ a] exI[of _ b] exI[of _ c] exI[of _ d]) auto
      qed
    qed
  qed
qed

lemma main_try_returns: "\<exists>res. main_try sq pg = Some res"
proof -
  obtain r0 pg1 where ct: "create_tables pg = (r0, pg1)" by (cases "create_tables pg")
  obtain r1 sq1 pg2 bs1 where
    m1: "migrate_data sq pg1 ''argo_floats'' 2000 = Some (r1, sq1, pg2, bs1)"
    using migrate_data_returns[of 2000 sq pg1 "''argo_floats''"] by auto
  obtain r2 sq2 pg3 bs2 where
    m2: "migrate_data sq1 pg2 ''argo_profiles'' 5000 = Some (r2, sq2, pg3, bs2)"
    using migrate_data_returns[of 5000 sq1 pg2 "''argo_profiles''"] by auto
  show ?thesis
    using ct m1 m2 by (simp add: main_try_def split: sum.splits prod.splits)
qed

lemma main_migrate_closes:
  "\<exists>out sq' pg'. main_migrate sq pg = Some (out, sq', pg') \<and> sqlite_closed sq' \<and> closed pg' \<and>
      last (oplog pg') = Close"
proof -
  obtain r sq1 pg1 where "main_try sq pg = Some (r, sq1, pg1)"
    using main_try_returns[of sq pg] by (metis prod_cases3)
  then show ?thesis
    by (simp add: main_migrate_def sqlite_close_def pg_close_def)
qed

lemma pg_count_log:
  "pg_count c t = (r, c') \<Longrightarrow> oplog c' = oplog c @ [SelectCount t] \<and> closed c' = closed c"
  by (auto simp: pg_count_def split: option.splits if_splits)

lemma pg_sample_log:
  "pg_sample c t = (r, c') \<Longrightarrow> oplog c' = oplog c @ [SelectSample t] \<and> closed c' = closed c"
  by (auto simp: pg_sample_def split: option.splits if_splits)

lemma create_schema_log:
  assumes "create_schema c sf = (r, c')"
  shows "\<exists>a. oplog c' = oplog c @ a \<and> in_phase v 0 a \<and> closed c' = closed c \<and>
           (r = Inr () \<longrightarrow> (\<exists>schema. sf = Some schema \<and> a = [Execute schema, Commit]) \<and>
              working c' = committed c' \<and> \<not> closed c')"
proof (cases sf)
  case None
  with assms have "c' = c" "r \<noteq> Inr ()" by (auto simp: create_schema_def)
  then show ?thesis by (intro exI[of _ "[]"]) simp
next
  case (Some schema)
  show ?thesis
  proof (cases "closed c")
    case True
    with assms Some have "c' = c" "r \<noteq> Inr ()" by (auto simp: create_schema_def pg_cursor_def)
    then show ?thesis by (intro exI[of _ "[]"]) simp
  next
    case False
    obtain r1 c1 where ex: "pg_execute c schema = (r1, c1)"
      by (cases "pg_execute c schema")
    have c1: "oplog c1 = oplog c @ [Execute schema]" "closed c1 = closed c"
      and ok: "r1 = Inr () \<longrightarrow> \<not> aborted c1"
      using ex by (auto simp: pg_execute_def split: if_splits prod.splits option.splits)
    show ?thesis
    proof (cases r1)
      case (Inl e)
      with assms Some False ex have "r = Inl e" "c' = c1"
        by (simp_all add: create_schema_def pg_cursor_def)
      with c1 show ?thesis
        by (intro exI[of _ "[Execute schema]"]) (simp add: in_phase_def)
    next
      case (Inr u)
      with ok have na: "\<not> aborted c1" by simp
      with assms Some False ex Inr c1 have "r = Inr ()"
        and "c' = c1\<lparr>committed := working c1, oplog := oplog c1 @ [Commit]\<rparr>"
        by (simp_all add: create_schema_def pg_cursor_def pg_commit_def)
      with Some False c1 show ?thesis
        by (intro exI[of _ "[Execute schema, Commit]"]) (simp add: in_phase_def)
    qed
  qed
qed

lemma import_table_log:
  assumes "import_table t c f = (r, c')"
  shows "\<exists>b. oplog c' = oplog c @ b \<and> in_phase False (if t = ''argo_floats'' then 1 else 2) b \<and>
           closed c' = closed c \<and>
           (r = Inr () \<longrightarrow> (\<exists>header rest. f = Some (header # rest) \<and>
                               b = [CopyExpert t rest, Commit, SelectCount t]))"
  using import_table_result[OF assms]
proof
  assume "r = Inr () \<and>
          (\<exists>header rest rows.
             f = Some (header # rest) \<and>
             map (parse_line c t) (data_lines (parse_line c t) rest) = map Row rows \<and>
             committed c' = append_rows t rows (working c) \<and>
             working c' = committed c' \<and> \<not> closed c' \<and>
             oplog c' = oplog c @ [CopyExpert t rest, Commit, SelectCount t])"
  then obtain header rest where f: "f = Some (header # rest)"
    and o: "oplog c' = oplog c @ [CopyExpert t rest, Commit, SelectCount t]"
    and cl: "\<not> closed c'" and rr: "r = Inr ()" by blast
  from assms f rr have "\<not> closed c"
    by (auto simp: import_table_def pg_cursor_def split: if_splits)
  moreover have "in_phase False (if t = ''argo_floats'' then 1 else 2) [CopyExpert t rest, Commit, SelectCount t]"
    by (simp add: in_phase_def)
  ultimately show ?thesis using f o cl by blast
next
  assume a: "(\<exists>e. r = Inl e) \<and> committed c' = committed c \<and> closed c' = closed c \<and>
          (\<exists>ops. oplog c' = oplog c @ ops \<and> (\<forall>op\<in>set ops. \<exists>ls. op = CopyExpert t ls))"
  then obtain ops where o: "oplog c' = oplog c @ ops" and all: "\<forall>op\<in>set ops. \<exists>ls. op = CopyExpert t ls"
    by blast
  from all have "in_phase False (if t = ''argo_floats'' then 1 else 2) ops"
    by (auto simp: in_phase_def)
  with a o show ?thesis by auto
qed

lemma verify_import_log:
  assumes "verify_import c = (r, c')"
  shows "\<exists>d. oplog c' = oplog c @ d \<and> in_phase False 3 d \<and> closed c' = closed c \<and>
           (\<forall>counts. r = Inr counts \<longrightarrow>
              d = [SelectCount ''argo_floats'', SelectCount ''argo_profiles'',
                   SelectSample ''argo_floats'', SelectSample ''argo_profiles''])"
proof (cases "closed c")
  case True
  with assms have "c' = c" "\<forall>counts. r \<noteq> Inr counts" by (auto simp: verify_import_def pg_cursor_def)
  then show ?thesis by (intro exI[of _ "[]"]) simp
next
  case False
  obtain r1 c1 where s1: "pg_count c ''argo_floats'' = (r1, c1)" by (cases "pg_count c ''argo_floats''")
  obtain r2 c2 where s2: "pg_count c1 ''argo_profiles'' = (r2, c2)" by (cases "pg_count c1 ''argo_profiles''")
  obtain r3 c3 where s3: "pg_sample c2 ''argo_floats'' = (r3, c3)" by (cases "pg_sample c2 ''argo_floats''")
  obtain r4 c4 where s4: "pg_sample c3 ''argo_profiles'' = (r4, c4)" by (cases "pg_sample c3 ''argo_profiles''")
  note l1 = pg_count_log[OF s1] and l2 = pg_count_log[OF s2]
    and l3 = pg_sample_log[OF s3] and l4 = pg_sample_log[OF s4]
  show ?thesis
  proof (cases r1)
    case (Inl e)
    with assms False s1 have "r = Inl e" "c' = c1" by (simp_all add: verify_import_def pg_cursor_def)
    with l1 show ?thesis by (intro exI[of _ "[SelectCount ''argo_floats'']"]) (simp add: in_phase_def)
  next
    case i1: (Inr n1)
    show ?thesis
    proof (cases r2)
      case (Inl e)
      with assms False s1 i1 s2 have "r = Inl e" "c' = c2" by (simp_all add: verify_import_def pg_cursor_def)
      with l1 l2 show ?thesis
        by (intro exI[of _ "[SelectCount ''argo_floats'', SelectCount ''argo_profiles'']"]) (simp add: in_phase_def)
    next
      case i2: (Inr n2)
      show ?thesis
      proof (cases r3)
        case (Inl e)
        with assms False s1 i1 s2 i2 s3 have "r = Inl e" "c' = c3"
          by (simp_all add: verify_import_def pg_cursor_def)
        with l1 l2 l3 show ?thesis
          by (intro exI[of _ "[SelectCount ''argo_floats'', SelectCount ''argo_profiles'',
                SelectSample ''argo_floats'']"]) (simp add: in_phase_def)
      next
        case i3: (Inr x3)
        have c4: "c' = c4" and r: "r = (case r4 of Inl e \<Rightarrow> Inl e | Inr x \<Rightarrow> Inr (n1, n2))"
          using assms False s1 i1 s2 i2 s3 i3 s4
          by (cases r4; simp add: verify_import_def pg_cursor_def)+
        from c4 l1 l2 l3 l4 show ?thesis
          by (intro exI[of _ "[SelectCount ''argo_floats'', SelectCount ''argo_profiles'',
                SelectSample ''argo_floats'', SelectSample ''argo_profiles'']"]) (simp add: in_phase_def)
      qed
    qed
  qed
qed

lemma main_bulk_import_log:
  assumes "main_bulk_import conn sf ff pf = (r, conn')"
  shows "\<exists>a b c d e. oplog conn' = oplog conn @ a @ b @ c @ d @ e \<and>
           in_phase False 0 a \<and> in_phase False 1 b \<and> in_phase False 2 c \<and> in_phase False 3 d \<and>
           (case r of
              Inl x \<Rightarrow> e = [] \<and> closed conn' = closed conn
            | Inr counts \<Rightarrow>
                e = [Close] \<and> closed conn' \<and>
                (\<exists>schema hf rf hp rp.
                   sf = Some schema \<and> ff = Some (hf # rf) \<and> pf = Some (hp # rp) \<and>
                   a = [Execute schema, Commit] \<and>
                   b = [CopyExpert ''argo_floats'' rf, Commit, SelectCount ''argo_floats''] \<and>
                   c = [CopyExpert ''argo_profiles'' rp, Commit, SelectCount ''argo_profiles''] \<and>
                   d = [SelectCount ''argo_floats'', SelectCount ''argo_profiles'',
                        SelectSample ''argo_floats'', SelectSample ''argo_profiles'']))"
proof -
  obtain r0 c1 where s0: "create_schema conn sf = (r0, c1)" by (cases "create_schema conn sf")
  from create_schema_log[OF s0, of False] obtain a where
    a: "oplog c1 = oplog conn @ a" "in_phase False 0 a" "closed c1 = closed conn"
    and a_ok: "r0 = Inr () \<longrightarrow> (\<exists>schema. sf = Some schema \<and> a = [Execute schema, Commit])"
    by blast
  show ?thesis
  proof (cases r0)
    case (Inl x)
    with assms s0 have "r = Inl x" "conn' = c1" by (simp_all add: main_bulk_import_def)
    with a show ?thesis
      by (intro exI[of _ a] exI[of _ "[]"]) simp
  next
    case (Inr u)
    with a_ok obtain schema where sf: "sf = Some schema" and a_eq: "a = [Execute schema, Commit]"
      by auto
    obtain r1 c2 where s1: "import_table ''argo_floats'' c1 ff = (r1, c2)"
      by (cases "import_table ''argo_floats'' c1 ff")
    from import_table_log[OF s1] obtain b where
      b: "oplog c2 = oplog c1 @ b" "in_phase False 1 b" "closed c2 = closed c1"
      and b_ok: "r1 = Inr () \<longrightarrow> (\<exists>header rest. ff = Some (header # rest) \<and>
                               b = [CopyExpert ''argo_floats'' rest, Commit, SelectCount ''argo_floats''])"
      by auto
    show ?thesis
    proof (cases r1)
      case (Inl x)
      with assms s0 Inr s1 have "r = Inl x" "conn' = c2"
        by (simp_all add: main_bulk_import_def import_argo_floats_def)
      with a b show ?thesis
        by (intro exI[of _ a] exI[of _ b] exI[of _ "[]"]) simp
    next
      case i1: (Inr u1)
      with b_ok obtain hf rf where ff: "ff = Some (hf # rf)"
        and b_eq: "b = [CopyExpert ''argo_floats'' rf, Commit, SelectCount ''argo_floats'']"
        by auto
      obtain r2 c3 where s2: "import_table ''argo_profiles'' c2 pf = (r2, c3)"
        by (cases "import_table ''argo_profiles'' c2 pf")
      from import_table_log[OF s2] obtain c where
        c: "oplog c3 = oplog c2 @ c" "in_phase False 2 c" "closed c3 = closed c2"
        and c_ok: "r2 = Inr () \<longrightarrow> (\<exists>header rest. pf = Some (header # rest) \<and>
                               c = [CopyExpert ''argo_profiles'' rest, Commit, SelectCount ''argo_profiles''])"
        by auto
      show ?thesis
      proof (cases r2)
        case (Inl x)
        with assms s0 Inr s1 i1 s2 have "r = Inl x" "conn' = c3"
          by (simp_all add: main_bulk_import_def import_argo_floats_def import_argo_profiles_def)
        with a b c show ?thesis
          by (intro exI[of _ a] exI[of _ b] exI[of _ c] exI[of _ "[]"]) simp
      next
        case i2: (Inr u2)
        with c_ok obtain hp rp where pf: "pf = Some (hp # rp)"
          and c_eq: "c = [CopyExpert ''argo_profiles'' rp, Commit, SelectCount ''argo_profiles'']"
          by auto
        obtain r3 c4 where s3: "verify_import c3 = (r3, c4)" by (cases "verify_import c3")
        from verify_import_log[OF s3] obtain d where
          d: "oplog c4 = oplog c3 @ d" "in_phase False 3 d" "closed c4 = closed c3"
          and d_ok: "\<forall>counts. r3 = Inr counts \<longrightarrow>
              d = [SelectCount ''argo_floats'', SelectCount ''argo_profiles'',
                   SelectSample ''argo_floats'', SelectSample ''argo_profiles'']"
          by blast
        show ?thesis
        proof (cases r3)
          case (Inl x)
          with assms s0 Inr s1 i1 s2 i2 s3 have "r = Inl x" "conn' = c4"
            by (simp_all add: main_bulk_import_def import_argo_floats_def import_argo_profiles_def)
          with a b c d show ?thesis
            by (intro exI[of _ a] exI[of _ b] exI[of _ c] exI[of _ d] exI[of _ "[]"]) simp
        next
          case i3: (Inr counts)
          with assms s0 Inr s1 i1 s2 i2 s3 have "r = Inr counts" "conn' = pg_close c4"
            by (simp_all add: main_bulk_import_def import_argo_floats_def import_argo_profiles_def)
          moreover from d_ok i3 have "d = [SelectCount ''argo_floats'', SelectCount ''argo_profiles'',
                   SelectSample ''argo_floats'', SelectSample ''argo_profiles'']" by simp
          ultimately show ?thesis using a b c d sf ff pf a_eq b_eq c_eq
            by (intro exI[of _ a] exI[of _ b] exI[of _ c] exI[of _ d] exI[of _ "[Close]"])
               (simp add: pg_close_def)
        qed
      qed
    qed
  qed
qed

lemmas main_defs = main_migrate_def main_try_def verify_migration_def sqlite_close_def pg_close_def
  main_bulk_import_def verify_import_def pg_sample_def pg_count_def pg_logged_def pg_failed_def

lemma sample_main_run:
  "run_log (main_migrate sample_source sample_destination) =
     Some (MigrationSuccessful,
           map (\<lambda>s. Execute [s]) create_tables_statements @
           [Commit,
            ExecuteMany ''argo_floats'' [1, 2, 3, 4, 5], Commit,
            ExecuteMany ''argo_profiles'' [10, 11, 12], Commit,
            SelectCount ''argo_profiles'', SelectCount ''argo_floats'', Close])"
  by (simp add: run_log_def main_defs provision_defs run_defs sample_source_def sample_destination_def sample_db_def)

lemma sample_bulk_run:
  "fst (main_bulk_import sample_destination_fresh (Some sample_schema)
          (Some [''header'', ''a'', ''bb'']) (Some [''header'', ''ccc''])) = Inr (2, 1)"
  by (simp add: main_defs provision_defs import_defs sample_destination_fresh_def sample_schema_def)

lemma main_bulk_import_closes_on_success_only:
  assumes "main_bulk_import conn sf ff pf = (r, conn')"
  shows "(\<forall>counts. r = Inr counts \<longrightarrow> closed conn') \<and> (\<forall>e. r = Inl e \<longrightarrow> closed conn' = closed conn)"
  using main_bulk_import_log[OF assms] by (cases r) auto

lemma import_csv_closes:
  assumes "import_csv conn sf ff pf = (r, conn')" and "\<not> closed conn"
  shows "closed conn'"
  using assms
  by (auto simp: import_csv_def pg_cursor_def pg_close_def split: prod.splits sum.splits)

text \<open>
  C9. In every run of \<^verbatim>\<open>main\<close>, of \<^verbatim>\<open>migrate_to_supabase.py\<close> and of
  \<^verbatim>\<open>bulk_import_supabase.py\<close> alike, the calls made on the destination come phase
  after phase: the provisioning statements, then what loads \<^verbatim>\<open>argo_floats\<close>, then
  what loads \<^verbatim>\<open>argo_profiles\<close>, then the queries of the verification; a run that
  aborts stops somewhere along this order. A run that does not abort makes exactly the
  calls of one provisioning, of the load of \<^verbatim>\<open>argo_floats\<close> with its commits, of the
  load of \<^verbatim>\<open>argo_profiles\<close> with its commits, and of one verification over both
  tables, and then closes: no row of \<^verbatim>\<open>argo_profiles\<close> is sent before the last
  commit of \<^verbatim>\<open>argo_floats\<close>.
\<close>

theorem phases_in_fixed_order:
  "(main_migrate sqlite_conn pg_conn = Some (out, sq', pg') \<longrightarrow>
      (\<exists>ops. oplog pg' = oplog pg_conn @ ops \<and> sorted (phases True ops) \<and>
         ((\<forall>e. out \<noteq> MigrationFailed e) \<longrightarrow>
            (\<exists>bs1 bs2.
               ops = map (\<lambda>s. Execute [s]) create_tables_statements @ [Commit]
                     @ batch_ops ''argo_floats'' bs1 @ batch_ops ''argo_profiles'' bs2
                     @ [SelectCount ''argo_profiles'', SelectCount ''argo_floats'', Close])))) \<and>
   (main_bulk_import conn schema_file floats_csv profiles_csv = (r, conn') \<longrightarrow>
      (\<exists>ops. oplog conn' = oplog conn @ ops \<and> sorted (phases False ops) \<and>
         (\<forall>counts. r = Inr counts \<longrightarrow>
            (\<exists>schema hf rf hp rp.
               schema_file = Some schema \<and> floats_csv = Some (hf # rf) \<and>
               profiles_csv = Some (hp # rp) \<and>
               ops = [Execute schema, Commit,
                      CopyExpert ''argo_floats'' rf, Commit, SelectCount ''argo_floats'',
                      CopyExpert ''argo_profiles'' rp, Commit, SelectCount ''argo_profiles'',
                      SelectCount ''argo_floats'', SelectCount ''argo_profiles'',
                      SelectSample ''argo_floats'', SelectSample ''argo_profiles'', Close]))))"
proof (intro conjI impI)
  assume m: "main_migrate sqlite_conn pg_conn = Some (out, sq', pg')"
  then obtain r sq1 pg1 where t: "main_try sqlite_conn pg_conn = Some (r, sq1, pg1)"
    and out: "out = (case r of Inl e \<Rightarrow> MigrationFailed e
                     | Inr g \<Rightarrow> if g then MigrationSuccessful else MigrationCompletedWithErrors)"
    and pg': "pg' = pg_close pg1"
    by (cases "main_try sqlite_conn pg_conn") (auto simp: main_migrate_def)
  from main_try_log[OF t] obtain a b c d where
    o: "oplog pg1 = oplog pg_conn @ a @ b @ c @ d"
    and ph: "in_phase True 0 a" "in_phase True 1 b" "in_phase True 2 c" "in_phase True 3 d"
    and ok: "\<forall>g. r = Inr g \<longrightarrow>
              a = map (\<lambda>s. Execute [s]) create_tables_statements @ [Commit] \<and>
              (\<exists>bs1. b = batch_ops ''argo_floats'' bs1) \<and>
              (\<exists>bs2. c = batch_ops ''argo_profiles'' bs2) \<and>
              d = [SelectCount ''argo_profiles'', SelectCount ''argo_floats'']"
    by blast
  have o': "oplog pg' = oplog pg_conn @ (a @ b @ c @ d @ [Close])"
    using o pg' by (simp add: pg_close_def)
  have "in_phase True 4 [Close]" by (simp add: in_phase_def)
  from sorted_phases[OF ph this] have s: "sorted (phases True (a @ b @ c @ d @ [Close]))" .
  have "(\<forall>e. out \<noteq> MigrationFailed e) \<longrightarrow>
            (\<exists>bs1 bs2.
               a @ b @ c @ d @ [Close] = map (\<lambda>s. Execute [s]) create_tables_statements @ [Commit]
                     @ batch_ops ''argo_floats'' bs1 @ batch_ops ''argo_profiles'' bs2
                     @ [SelectCount ''argo_profiles'', SelectCount ''argo_floats'', Close])"
  proof
    assume nf: "\<forall>e. out \<noteq> MigrationFailed e"
    with out obtain g where "r = Inr g" by (cases r) auto
    with ok obtain bs1 bs2 where
      "a = map (\<lambda>s. Execute [s]) create_tables_statements @ [Commit]"
      "b = batch_ops ''argo_floats'' bs1" "c = batch_ops ''argo_profiles'' bs2"
      "d = [SelectCount ''argo_profiles'', SelectCount ''argo_floats'']" by blast
    then have "a @ b @ c @ d @ [Close] = map (\<lambda>s. Execute [s]) create_tables_statements @ [Commit]
                     @ batch_ops ''argo_floats'' bs1 @ batch_ops ''argo_profiles'' bs2
                     @ [SelectCount ''argo_profiles'', SelectCount ''argo_floats'', Close]"
      by simp
    then show "\<exists>bs1 bs2.
               a @ b @ c @ d @ [Close] = map (\<lambda>s. Execute [s]) create_tables_statements @ [Commit]
                     @ batch_ops ''argo_floats'' bs1 @ batch_ops ''argo_profiles'' bs2
                     @ [SelectCount ''argo_profiles'', SelectCount ''argo_floats'', Close]"
      by blast
  qed
  with o' s show "\<exists>ops. oplog pg' = oplog pg_conn @ ops \<and> sorted (phases True ops) \<and>
         ((\<forall>e. out \<noteq> MigrationFailed e) \<longrightarrow>
            (\<exists>bs1 bs2.
               ops = map (\<lambda>s. Execute [s]) create_tables_statements @ [Commit]
                     @ batch_ops ''argo_floats'' bs1 @ batch_ops ''argo_profiles'' bs2
                     @ [SelectCount ''argo_profiles'', SelectCount ''argo_floats'', Close]))"
    by blast
next
  assume m: "main_bulk_import conn schema_file floats_csv profiles_csv = (r, conn')"
  from main_bulk_import_log[OF m] obtain a b c d e where
    o: "oplog conn' = oplog conn @ (a @ b @ c @ d @ e)"
    and ph: "in_phase False 0 a" "in_phase False 1 b" "in_phase False 2 c" "in_phase False 3 d"
    and cs: "case r of
              Inl x \<Rightarrow> e = [] \<and> closed conn' = closed conn
            | Inr counts \<Rightarrow>
                e = [Close] \<and> closed conn' \<and>
                (\<exists>schema hf rf hp rp.
                   schema_file = Some schema \<and> floats_csv = Some (hf # rf) \<and> profiles_csv = Some (hp # rp) \<and>
                   a = [Execute schema, Commit] \<and>
                   b = [CopyExpert ''argo_floats'' rf, Commit, SelectCount ''argo_floats''] \<and>
                   c = [CopyExpert ''argo_profiles'' rp, Commit, SelectCount ''argo_profiles''] \<and>
                   d = [SelectCount ''argo_floats'', SelectCount ''argo_profiles'',
                        SelectSample ''argo_floats'', SelectSample ''argo_profiles''])"
    by auto
  have "in_phase False 4 e" using cs by (cases r) (simp_all add: in_phase_def)
  from sorted_phases[OF ph this] have s: "sorted (phases False (a @ b @ c @ d @ e))" .
  have "\<forall>counts. r = Inr counts \<longrightarrow>
            (\<exists>schema hf rf hp rp.
               schema_file = Some schema \<and> floats_csv = Some (hf # rf) \<and>
               profiles_csv = Some (hp # rp) \<and>
               a @ b @ c @ d @ e = [Execute schema, Commit,
                      CopyExpert ''argo_floats'' rf, Commit, SelectCount ''argo_floats'',
                      CopyExpert ''argo_profiles'' rp, Commit, SelectCount ''argo_profiles'',
                      SelectCount ''argo_floats'', SelectCount ''argo_profiles'',
                      SelectSample ''argo_floats'', SelectSample ''argo_profiles'', Close])"
  proof (intro allI impI)
    fix counts assume "r = Inr counts"
    with cs obtain schema hf rf hp rp where
      "schema_file = Some schema" "floats_csv = Some (hf # rf)" "profiles_csv = Some (hp # rp)"
      "a = [Execute schema, Commit]"
      "b = [CopyExpert ''argo_floats'' rf, Commit, SelectCount ''argo_floats'']"
      "c = [CopyExpert ''argo_profiles'' rp, Commit, SelectCount ''argo_profiles'']"
      "d = [SelectCount ''argo_floats'', SelectCount ''argo_profiles'',
                        SelectSample ''argo_floats'', SelectSample ''argo_profiles'']"
      "e = [Close]" by auto
    then have "schema_file = Some schema \<and> floats_csv = Some (hf # rf) \<and>
               profiles_csv = Some (hp # rp) \<and>
               a @ b @ c @ d @ e = [Execute schema, Commit,
                      CopyExpert ''argo_floats'' rf, Commit, SelectCount ''argo_floats'',
                      CopyExpert ''argo_profiles'' rp, Commit, SelectCount ''argo_profiles'',
                      SelectCount ''argo_floats'', SelectCount ''argo_profiles'',
                      SelectSample ''argo_floats'', SelectSample ''argo_profiles'', Close]"
      by simp
    then show "\<exists>schema hf rf hp rp.
               schema_file = Some schema \<and> floats_csv = Some (hf # rf) \<and>
               profiles_csv = Some (hp # rp) \<and>
               a @ b @ c @ d @ e = [Execute schema, Commit,
                      CopyExpert ''argo_floats'' rf, Commit, SelectCount ''argo_floats'',
                      CopyExpert ''argo_profiles'' rp, Commit, SelectCount ''argo_profiles'',
                      SelectCount ''argo_floats'', SelectCount ''argo_profiles'',
                      SelectSample ''argo_floats'', SelectSample ''argo_profiles'', Close]"
      by blast
  qed
  with o s show "\<exists>ops. oplog conn' = oplog conn @ ops \<and> sorted (phases False ops) \<and>
         (\<forall>counts. r = Inr counts \<longrightarrow>
            (\<exists>schema hf rf hp rp.
               schema_file = Some schema \<and> floats_csv = Some (hf # rf) \<and>
               profiles_csv = Some (hp # rp) \<and>
               ops = [Execute schema, Commit,
                      CopyExpert ''argo_floats'' rf, Commit, SelectCount ''argo_floats'',
                      CopyExpert ''argo_profiles'' rp, Commit, SelectCount ''argo_profiles'',
                      SelectCount ''argo_floats'', SelectCount ''argo_profiles'',
                      SelectSample ''argo_floats'', SelectSample ''argo_profiles'', Close]))"
    by blast
qed

theorem phases_in_fixed_order_witness:
  "(\<exists>sq' pg'.
      main_migrate sample_source sample_destination = Some (MigrationSuccessful, sq', pg') \<and>
      oplog pg' =
        map (\<lambda>s. Execute [s]) create_tables_statements @
        [Commit,
         ExecuteMany ''argo_floats'' [1, 2, 3, 4, 5], Commit,
         ExecuteMany ''argo_profiles'' [10, 11, 12], Commit,
         SelectCount ''argo_profiles'', SelectCount ''argo_floats'', Close] \<and>
      sorted (phases True (oplog pg'))) \<and>
   fst (main_bulk_import sample_destination_fresh (Some sample_schema)
          (Some [''header'', ''a'', ''bb'']) (Some [''header'', ''ccc''])) = Inr (2, 1) \<and>
   sorted (phases False (oplog (snd (main_bulk_import sample_destination_fresh (Some sample_schema)
          (Some [''header'', ''a'', ''bb'']) (Some [''header'', ''ccc''])))))"
proof -
  let ?bulk = "main_bulk_import sample_destination_fresh (Some sample_schema)
          (Some [''header'', ''a'', ''bb'']) (Some [''header'', ''ccc''])"
  obtain out sq' pg' where run: "main_migrate sample_source sample_destination = Some (out, sq', pg')"
    using main_migrate_closes[of sample_source sample_destination] by blast
  with sample_main_run have out: "out = MigrationSuccessful"
    and log: "oplog pg' =
        map (\<lambda>s. Execute [s]) create_tables_statements @
        [Commit,
         ExecuteMany ''argo_floats'' [1, 2, 3, 4, 5], Commit,
         ExecuteMany ''argo_profiles'' [10, 11, 12], Commit,
         SelectCount ''argo_profiles'', SelectCount ''argo_floats'', Close]"
    by (simp_all add: run_log_def)
  have e1: "oplog sample_destination = []" by (simp add: sample_destination_def)
  have e2: "oplog sample_destination_fresh = []" by (simp add: sample_destination_fresh_def)
  have b: "?bulk = (Inr (2, 1), snd ?bulk)"
    using sample_bulk_run by (metis prod.collapse)
  note inst = phases_in_fixed_order[of sample_source sample_destination out sq' pg'
      sample_destination_fresh "Some sample_schema" "Some [''header'', ''a'', ''bb'']"
      "Some [''header'', ''ccc'']" "Inr (2, 1)" "snd ?bulk"]
  from inst run e1 have s1: "sorted (phases True (oplog pg'))" by auto
  from inst b e2 have s2: "sorted (phases False (oplog (snd ?bulk)))" by auto
  from run out log s1 s2 sample_bulk_run show ?thesis by blast
qed

text \<open>
  C8 asks that every exit path of a run close its connections. \<^verbatim>\<open>main\<close> of
  \<^verbatim>\<open>migrate_to_supabase.py\<close> does (\<open>main_migrate_closes\<close>) and so does
  \<^verbatim>\<open>import_csv\<close> (\<open>import_csv_closes\<close>), both in a \<^verbatim>\<open>finally\<close> clause.
  \<^verbatim>\<open>main\<close> of \<^verbatim>\<open>bulk_import_supabase.py\<close> closes after the last step only
  (\<open>main_bulk_import_closes_on_success_only\<close>): here the schema fails on a destination
  that already holds \<^verbatim>\<open>argo_profiles\<close>, the exception is raised again and the
  connection is left open, the \<^verbatim>\<open>execute\<close> being the only call made on it.
\<close>

theorem main_bulk_import_leaves_connection_open:
  "fst (main_bulk_import sample_destination_profiles_only (Some sample_schema)
          (Some [''header'', ''a'', ''bb'']) (Some [''header'', ''ccc''])) =
     Inl (Psycopg2 (DuplicateTable ''argo_profiles'')) \<and>
   \<not> closed (snd (main_bulk_import sample_destination_profiles_only (Some sample_schema)
          (Some [''header'', ''a'', ''bb'']) (Some [''header'', ''ccc'']))) \<and>
   oplog (snd (main_bulk_import sample_destination_profiles_only (Some sample_schema)
          (Some [''header'', ''a'', ''bb'']) (Some [''header'', ''ccc'']))) = [Execute sample_schema]"
  by (simp add: main_defs provision_defs sample_destination_profiles_only_def sample_schema_def)

end
